theory Spec2Isabelle
  imports
    Complex_Main
    "HOL-Library.AList"
    "HOL-Library.Multiset"
    "HOL-Library.List_Lexorder"
    "HOL-Library.Char_ord"
begin

section \<open>Data model\<close>

text \<open>
  The exceptions the pipeline can raise.  \<open>ReadFailure\<close> stands for whatever the external
  channel reader raises on a missing or corrupt file; \<open>HarmonicSetMismatch\<close> is the failure
  of a ratio between fits over different harmonic numbers.
\<close>

datatype error =
    KeyError
  | ValueError
  | IndexError
  | AttributeError
  | UnboundLocalError
  | HarmonicSetMismatch
  | ReadFailure

definition bind :: "error + 'a \<Rightarrow> ('a \<Rightarrow> error + 'b) \<Rightarrow> error + 'b" where
  "bind m f = (case m of Inl e \<Rightarrow> Inl e | Inr x \<Rightarrow> f x)"

text \<open>
  A Python \<open>dict\<close> keeps its keys in insertion order, and storing under an existing key
  keeps the key's position: an association list with \<^const>\<open>AList.update\<close>.
\<close>

type_synonym 'v pydict = "(string \<times> 'v) list"

text \<open>A table cell: a string, a number (floating point is idealised as \<^typ>\<open>real\<close>) or a gap.\<close>

datatype cell = Str string | Num real | NaN

text \<open>
  A channel trace table (the frame the channel reader returns): named columns of samples.
  Frames are objects: a variable holds a reference, and the heap maps every reference to
  the table it denotes.
\<close>

type_synonym trace = "(string \<times> real list) list"

type_synonym addr = nat

type_synonym heap = "addr \<Rightarrow> trace"

text \<open>
  A result table, row by row.  A column label is a list of level values (a flat label has
  one level); a row is its index key (empty under the default range index) and its cells.
  \<open>index_names\<close> and \<open>column_names\<close> name the levels.
\<close>

record 'v frame =
  index_names :: "string list"
  column_names :: "string list"
  columns :: "string list list"
  rows :: "('v list \<times> 'v list) list"

text \<open>Result tables as objects: \<open>next_addr\<close> is the first reference not yet in use.\<close>

record 'v store =
  next_addr :: addr
  objs :: "addr \<Rightarrow> 'v frame"

text \<open>
  Modelled from the spec: the class \<open>Harmonic\<close> (module \<open>datatools.harmonic\<close>) is not among
  the sources.  A fit holds the harmonic numbers it was asked for, the angular fundamental
  frequency estimated during the fit, and one amplitude and one phase per harmonic number,
  in the order of the harmonic numbers.
\<close>

record harmonic =
  numbers :: "int list"
  omega :: real
  amplitudes :: "real list"
  phases :: "real list"

text \<open>
  The two routines of \<open>scipy.signal\<close> the code calls are parameters of the model:
  \<open>butter order wn\<close> designs a Butterworth filter (low-pass is the routine's default
  band type, \<open>wn\<close> is a fraction of the Nyquist frequency) and returns its coefficients
  \<open>(b, a)\<close>; \<open>filtfilt coeffs x padlen\<close> applies the filter forward and backward to \<open>x\<close>
  with \<open>padlen\<close> samples of edge padding, or raises.
\<close>

record 'c signal =
  butter :: "nat \<Rightarrow> real \<Rightarrow> 'c"
  filtfilt :: "'c \<Rightarrow> real list \<Rightarrow> nat \<Rightarrow> error + real list"

text \<open>
  The collaborators of the per-file analysis: \<open>CSV file_name max_sample_freq mapper\<close> is
  the external channel reader (\<open>daq.pico.CSV(...).df\<close>); \<open>fit harmonics t y\<close> is
  \<open>Harmonic(harmonics).fit(t, y)\<close>, the least-squares estimation, which is numerical code
  outside the sources.
\<close>

record 'c env =
  CSV :: "cell \<Rightarrow> real \<Rightarrow> (string \<times> string) list \<Rightarrow> error + trace"
  signal :: "'c signal"
  fit :: "int list \<Rightarrow> real list \<Rightarrow> real list \<Rightarrow> error + harmonic"

text \<open>The fields \<open>Pipe.__init__\<close> sets.\<close>

record pipe =
  channel_mapper :: "(string \<times> string) list"
  n_jobs :: int
  harmonics :: "int list"
  verbose :: bool
  df_log :: "cell frame"

definition Pipe :: "cell frame \<Rightarrow> (string \<times> string) list \<Rightarrow> int \<Rightarrow> bool \<Rightarrow> int \<Rightarrow> pipe" where
  "Pipe df_log_batch mapper jobs verb harmonic =
     \<lparr> channel_mapper = mapper, n_jobs = jobs, harmonics = [1, harmonic],
       verbose = verb, df_log = df_log_batch \<rparr>"

section \<open>Signal conditioning (\<open>Pipe.filter\<close>)\<close>

definition filter_cols :: "string list" where
  "filter_cols = [''res_volt'', ''sec_volt'', ''rec_volt'']"

text \<open>
  The loop of \<open>Pipe.filter\<close> over \<open>filter_cols\<close>.  \<open>df[col].values\<close> raises \<open>KeyError\<close>
  when the column is missing; \<open>df.loc[:, col] = y\<close> overwrites the column of the object
  \<open>df\<close> refers to, and raises \<open>ValueError\<close> when \<open>y\<close> has another length than the
  table.  An exception leaves the heap as the iterations before it made it.
\<close>

fun filter_loop :: "'c signal \<Rightarrow> addr \<Rightarrow> string list \<Rightarrow> heap \<Rightarrow> error option \<times> heap" where
  "filter_loop lib df [] h = (None, h)"
| "filter_loop lib df (col # cols) h =
     (case map_of (h df) col of
        None \<Rightarrow> (Some KeyError, h)
      | Some x \<Rightarrow>
          (case filtfilt lib (butter lib 8 (1 / 100)) x 150 of
             Inl e \<Rightarrow> (Some e, h)
           | Inr y \<Rightarrow>
               if length y \<noteq> length x then (Some ValueError, h)
               else filter_loop lib df cols (h(df := AList.update col y (h df)))))"

text \<open>\<open>Pipe.filter\<close> returns the reference it was given.\<close>

definition filter_pipe :: "'c signal \<Rightarrow> addr \<Rightarrow> heap \<Rightarrow> (error + addr) \<times> heap" where
  "filter_pipe lib df h =
     (case filter_loop lib df filter_cols h of
        (Some e, h') \<Rightarrow> (Inl e, h')
      | (None, h') \<Rightarrow> (Inr df, h'))"

section \<open>Per-file analysis (\<open>Pipe._process_file\<close>)\<close>

text \<open>
  Modelled from the spec: \<open>Harmonic.derivative\<close>.  Per harmonic number \<open>n\<close> the amplitude is
  scaled by the angular fundamental frequency times \<open>n\<close> and the phase is shifted by
  \<open>\<pi>/2\<close>.
\<close>

definition derivative :: "harmonic \<Rightarrow> harmonic" where
  "derivative h =
     h\<lparr> amplitudes := map2 (\<lambda>a n. a * (omega h * of_int n)) (amplitudes h) (numbers h),
        phases := map (\<lambda>p. p + pi / 2) (phases h) \<rparr>"

text \<open>
  Modelled from the spec: the ratio of two fits (\<open>Harmonic.__truediv__\<close>).  Per harmonic
  number the amplitudes are divided and the phases subtracted; fits over different harmonic
  numbers fail with \<open>HarmonicSetMismatch\<close>.
\<close>

definition divide_h :: "harmonic \<Rightarrow> harmonic \<Rightarrow> error + harmonic" where
  "divide_h num den =
     (if numbers num \<noteq> numbers den then Inl HarmonicSetMismatch
      else Inr \<lparr> numbers = numbers num, omega = omega num,
                 amplitudes = map2 (\<lambda>a b. a / b) (amplitudes num) (amplitudes den),
                 phases = map2 (\<lambda>p q. p - q) (phases num) (phases den) \<rparr>)"

text \<open>Attribute access to a column (\<open>df.t\<close>) and indexing of an array (\<open>a[i]\<close>).\<close>

definition attr :: "trace \<Rightarrow> string \<Rightarrow> error + real list" where
  "attr df c = (case map_of df c of None \<Rightarrow> Inl AttributeError | Some x \<Rightarrow> Inr x)"

definition item :: "real list \<Rightarrow> nat \<Rightarrow> error + real" where
  "item a i = (if i < length a then Inr (a ! i) else Inl IndexError)"

text \<open>\<open>10 * np.log10(a[1] ** 2 / np.sum(a ** 2))\<close>\<close>

definition harm_db :: "real list \<Rightarrow> error + real" where
  "harm_db a =
     bind (item a 1) (\<lambda>a1. Inr (10 * log 10 (a1 ^ 2 / sum_list (map (\<lambda>x. x ^ 2) a))))"

text \<open>\<open>d.update(r)\<close>: the entries of \<open>r\<close> are stored in \<open>d\<close> in their order.\<close>

definition dict_update :: "'v pydict \<Rightarrow> 'v pydict \<Rightarrow> 'v pydict" where
  "dict_update d r = fold (\<lambda>kv. AList.update (fst kv) (snd kv)) r d"

text \<open>
  The first two statements of \<open>_process_file\<close>: the reader's frame is a fresh object, the
  filter works on that object, and \<open>df\<close> afterwards denotes what the returned reference
  holds.
\<close>

definition conditioned :: "'c env \<Rightarrow> pipe \<Rightarrow> cell \<Rightarrow> error + trace" where
  "conditioned env self file_name =
     bind (CSV env file_name 1000000000 (channel_mapper self)) (\<lambda>df0.
     case filter_pipe (signal env) 0 ((\<lambda>_. [])(0 := df0)) of
       (Inl e, h) \<Rightarrow> Inl e
     | (Inr df, h) \<Rightarrow> Inr (h df))"

text \<open>\<open>h = Harmonic(harmonics=self.harmonics); h.fit(df.t, df.<col>)\<close>\<close>

definition fit_channel :: "'c env \<Rightarrow> pipe \<Rightarrow> trace \<Rightarrow> string \<Rightarrow> error + harmonic" where
  "fit_channel env self df col =
     bind (attr df ''t'') (\<lambda>t.
     bind (attr df col) (\<lambda>y.
     fit env (harmonics self) t y))"

text \<open>
  \<open>_process_file\<close>.  The progress message printed under \<open>verbose\<close> is not modelled.
  \<open>out = key_dict\<close> makes \<open>out\<close> another name of the caller's dict, so the dict returned is
  the caller's dict, updated in place.
\<close>

definition process_file :: "'c env \<Rightarrow> pipe \<Rightarrow> cell \<Rightarrow> cell pydict \<Rightarrow> error + cell pydict" where
  "process_file env self file_name key_dict =
     bind (conditioned env self file_name) (\<lambda>df.
     bind (fit_channel env self df ''res_volt'') (\<lambda>h_i_fit.
     let h_i_prim = derivative h_i_fit in
     bind (fit_channel env self df ''sec_volt'') (\<lambda>h_v_sec.
     bind (fit_channel env self df ''rec_volt'') (\<lambda>h_v_rec.
     bind (divide_h h_v_sec h_i_prim) (\<lambda>h_z_prim_sec.
     bind (divide_h h_v_rec h_i_prim) (\<lambda>h_z_prim_rec.
     bind (divide_h h_v_rec h_v_sec) (\<lambda>h_z_sec_rec.
     bind (item (amplitudes h_z_prim_sec) 0) (\<lambda>prim_sec_amp.
     bind (item (phases h_z_prim_sec) 0) (\<lambda>prim_sec_phi.
     bind (item (amplitudes h_z_prim_rec) 0) (\<lambda>prim_rec_amp.
     bind (item (phases h_z_prim_rec) 0) (\<lambda>prim_rec_phi.
     bind (item (amplitudes h_z_sec_rec) 0) (\<lambda>sec_rec_amp.
     bind (item (phases h_z_sec_rec) 0) (\<lambda>sec_rec_phi.
     bind (harm_db (amplitudes h_v_sec)) (\<lambda>sec_harm_db.
     bind (harm_db (amplitudes h_v_rec)) (\<lambda>rec_harm_db.
     Inr (dict_update key_dict
       [(''prim_sec_amp'', Num prim_sec_amp), (''prim_sec_phi'', Num prim_sec_phi),
        (''prim_rec_amp'', Num prim_rec_amp), (''prim_rec_phi'', Num prim_rec_phi),
        (''sec_rec_amp'', Num sec_rec_amp), (''sec_rec_phi'', Num sec_rec_phi),
        (''sec_harm_db'', Num sec_harm_db), (''rec_harm_db'', Num rec_harm_db)]))))))))))))))))"

section \<open>Batch processing (\<open>Pipe.process\<close>)\<close>

definition derived_fields :: "string list" where
  "derived_fields = [''prim_sec_amp'', ''prim_sec_phi'', ''prim_rec_amp'', ''prim_rec_phi'',
                     ''sec_rec_amp'', ''sec_rec_phi'', ''sec_harm_db'', ''rec_harm_db'']"

text \<open>The first level of a column label; for a flat label, the column's name.\<close>

definition top_level :: "string list \<Rightarrow> string" where
  "top_level l = (case l of [] \<Rightarrow> [] | c # _ \<Rightarrow> c)"

text \<open>\<open>row[k]\<close> on a row of the batch descriptor.\<close>

definition row_item :: "string list list \<Rightarrow> 'v list \<Rightarrow> string \<Rightarrow> error + 'v" where
  "row_item cols cells k =
     (case map_of (zip (map top_level cols) cells) k of None \<Rightarrow> Inl KeyError | Some v \<Rightarrow> Inr v)"

text \<open>\<open>{k: row[k] for k in key_names}\<close>\<close>

fun comprehension ::
  "string list list \<Rightarrow> 'v list \<Rightarrow> string list \<Rightarrow> 'v pydict \<Rightarrow> error + 'v pydict" where
  "comprehension cols cells [] d = Inr d"
| "comprehension cols cells (k # ks) d =
     bind (row_item cols cells k) (\<lambda>v. comprehension cols cells ks (AList.update k v d))"

text \<open>The first two statements of the loop body: the arguments of the per-file call.\<close>

definition prepare :: "string list list \<Rightarrow> string list \<Rightarrow> 'v list \<Rightarrow> error + ('v \<times> 'v pydict)" where
  "prepare cols key_names cells =
     bind (row_item cols cells ''file_name'') (\<lambda>file_name.
     bind (comprehension cols cells key_names []) (\<lambda>key_dict.
     Inr (file_name, key_dict)))"

text \<open>
  \<open>delay_func(self._process_file)(file_name, key_dict)\<close> yields a future and leaves
  \<open>key_dict\<close> as the call made it; both are returned.  \<open>fake_delayed\<close> runs the analysis at
  once: the future is its result, which is the caller's \<open>key_dict\<close>, updated in place.
  \<open>dask.delayed\<close> only records the call; the worker process later receives a copy of the
  arguments, so \<open>key_dict\<close> stays as it is.
\<close>

definition fake_delayed ::
  "('v \<Rightarrow> 'v pydict \<Rightarrow> error + 'v pydict) \<Rightarrow> 'v \<Rightarrow> 'v pydict
     \<Rightarrow> error + ('v pydict \<times> 'v pydict)" where
  "fake_delayed func file_name key_dict =
     bind (func file_name key_dict) (\<lambda>out. Inr (out, out))"

definition delayed ::
  "('v \<Rightarrow> 'v pydict \<Rightarrow> error + 'v pydict) \<Rightarrow> 'v \<Rightarrow> 'v pydict
     \<Rightarrow> error + (('v \<times> 'v pydict) \<times> 'v pydict)" where
  "delayed func file_name key_dict = Inr ((file_name, key_dict), key_dict)"

text \<open>
  The loop over \<open>self.df_log.iterrows()\<close>.  The state is \<open>future_list\<close> and the variable
  \<open>key_dict\<close>, which is unbound (\<open>None\<close>) until the first iteration assigns it.
\<close>

fun submit ::
  "('v \<Rightarrow> 'v pydict \<Rightarrow> error + ('f \<times> 'v pydict)) \<Rightarrow> string list list \<Rightarrow> string list
     \<Rightarrow> ('v list \<times> 'v list) list \<Rightarrow> 'f list \<times> 'v pydict option
     \<Rightarrow> error + ('f list \<times> 'v pydict option)" where
  "submit call cols key_names [] st = Inr st"
| "submit call cols key_names (row # rest) st =
     bind (prepare cols key_names (snd row)) (\<lambda>args.
     bind (call (fst args) (snd args)) (\<lambda>res.
     submit call cols key_names rest (fst st @ [fst res], Some (snd res))))"

definition fake_compute :: "'r list \<Rightarrow> 'r list" where
  "fake_compute future_list = future_list"

text \<open>
  \<open>dask.compute(*future_list, scheduler='processes')\<close>.  The units of work share no state,
  so a run of the pool is described by the order in which the units complete: \<open>sched\<close>
  lists the positions of the futures in completion order.  Each result is stored in the
  slot of its future, the first failure is raised, and the slots are returned in the order
  of the arguments.  A position that names no future is skipped.
\<close>

fun run_schedule ::
  "('v \<Rightarrow> 'v pydict \<Rightarrow> error + 'v pydict) \<Rightarrow> ('v \<times> 'v pydict) list \<Rightarrow> nat list
     \<Rightarrow> 'v pydict option list \<Rightarrow> error + 'v pydict option list" where
  "run_schedule func tasks [] slots = Inr slots"
| "run_schedule func tasks (i # sched) slots =
     (if i < length tasks then
        bind (func (fst (tasks ! i)) (snd (tasks ! i))) (\<lambda>r.
        run_schedule func tasks sched (slots[i := Some r]))
      else run_schedule func tasks sched slots)"

definition compute ::
  "('v \<Rightarrow> 'v pydict \<Rightarrow> error + 'v pydict) \<Rightarrow> nat list \<Rightarrow> ('v \<times> 'v pydict) list
     \<Rightarrow> error + 'v pydict list" where
  "compute func sched tasks =
     bind (run_schedule func tasks sched (replicate (length tasks) None)) (\<lambda>slots.
     Inr (map the slots))"

text \<open>\<open>pd.DataFrame(rec_list, columns=columns)\<close>: one row per record, a gap for a missing key.\<close>

definition cell_of :: "cell pydict \<Rightarrow> string \<Rightarrow> cell" where
  "cell_of r c = (case map_of r c of None \<Rightarrow> NaN | Some v \<Rightarrow> v)"

definition DataFrame :: "cell pydict list \<Rightarrow> string list \<Rightarrow> cell frame" where
  "DataFrame recs cols =
     \<lparr> index_names = [], column_names = [], columns = map (\<lambda>c. [c]) cols,
       rows = map (\<lambda>r. ([], map (cell_of r) cols)) recs \<rparr>"

text \<open>
  The statements after the evaluation of the futures: \<open>list(key_dict.keys())\<close> reads the
  variable the loop assigns.
\<close>

definition finish :: "cell pydict option \<Rightarrow> cell pydict list \<Rightarrow> error + cell frame" where
  "finish key_dict rec_lst =
     (case key_dict of
        None \<Rightarrow> Inl UnboundLocalError
      | Some kd \<Rightarrow> Inr (DataFrame rec_lst (map fst kd @ derived_fields)))"

text \<open>
  \<open>Pipe.process\<close>; \<open>sched\<close> is the completion order of the pool, which only the parallel
  mode reads.  The table is stored in \<open>self._df\<close> and a copy of it is returned.
\<close>

definition process :: "'c env \<Rightarrow> nat list \<Rightarrow> pipe \<Rightarrow> error + cell frame" where
  "process env sched self =
     (let cols = columns (df_log self);
          key_names = filter (\<lambda>c. c \<noteq> ''file_name'') (map top_level cols)
      in if n_jobs self > 1 then
           bind (submit (delayed (process_file env self)) cols key_names
                   (rows (df_log self)) ([], None)) (\<lambda>st.
           bind (compute (process_file env self) sched (fst st)) (\<lambda>rec_lst.
           finish (snd st) rec_lst))
         else
           bind (submit (fake_delayed (process_file env self)) cols key_names
                   (rows (df_log self)) ([], None)) (\<lambda>st.
           finish (snd st) (fake_compute (fst st))))"

text \<open>The record of one descriptor row: the loop body's call, run to its result.\<close>

definition row_record :: "'c env \<Rightarrow> pipe \<Rightarrow> cell list \<times> cell list \<Rightarrow> error + cell pydict" where
  "row_record env self row =
     bind (prepare (columns (df_log self))
             (filter (\<lambda>c. c \<noteq> ''file_name'') (map top_level (columns (df_log self)))) (snd row))
       (\<lambda>args. process_file env self (fst args) (snd args))"

section \<open>Reshaping (\<open>Pipe._indexify\<close>)\<close>

text \<open>
  The position of the first column whose top-level label is \<open>k\<close>; \<open>None\<close> when \<open>k\<close> is
  not in the columns.
\<close>

fun get_loc :: "string list list \<Rightarrow> string \<Rightarrow> nat option" where
  "get_loc [] k = None"
| "get_loc (l # ls) k = (if top_level l = k then Some 0 else map_option Suc (get_loc ls k))"

definition drop_at :: "nat list \<Rightarrow> 'a list \<Rightarrow> 'a list" where
  "drop_at locs xs = map snd (filter (\<lambda>p. fst p \<notin> set locs) (enumerate 0 xs))"

text \<open>
  \<open>df.set_index(keys)\<close> builds a new frame: the key columns become the index and are
  dropped from the columns.  It does not check that the new index is unique
  (\<open>verify_integrity\<close> is off by default), and raises \<open>KeyError\<close> for a key that is not a
  column.
\<close>

definition set_index :: "string list \<Rightarrow> 'v frame \<Rightarrow> error + 'v frame" where
  "set_index keys df =
     (case those (map (get_loc (columns df)) keys) of
        None \<Rightarrow> Inl KeyError
      | Some locs \<Rightarrow>
          Inr \<lparr> index_names = keys, column_names = column_names df,
                columns = drop_at locs (columns df),
                rows = map (\<lambda>row. (map (\<lambda>i. snd row ! i) locs, drop_at locs (snd row)))
                         (rows df) \<rparr>)"

definition arrays :: "string list list" where
  "arrays =
     [ [''primary'', ''primary'', ''primary'', ''primary'', ''sec'', ''sec'', ''primary'',
        ''primary''],
       [''secondary'', ''secondary'', ''receiver'', ''receiver'', ''receiver'', ''receiver'',
        ''secondary'', ''secondary''],
       [''amplitude'', ''phase'', ''amplitude'', ''phase'', ''amplitude'', ''phase'', ''db'',
        ''db''] ]"

text \<open>\<open>pd.MultiIndex.from_arrays\<close>: the labels are the columns of the arrays.\<close>

definition from_arrays :: "string list list \<Rightarrow> string list list" where
  "from_arrays as = transpose as"

text \<open>\<open>df.columns = labels\<close>: by position, \<open>ValueError\<close> on another number of columns.\<close>

definition set_columns :: "string list list \<Rightarrow> string list \<Rightarrow> 'v frame \<Rightarrow> error + 'v frame" where
  "set_columns labels names df =
     (if length labels \<noteq> length (columns df) then Inl ValueError
      else Inr (df\<lparr> columns := labels, column_names := names \<rparr>))"

text \<open>
  \<open>df.sort_index(axis=1)\<close> and \<open>df.sort_index()\<close>: new frames with the columns, or the
  rows, in the lexicographic order of their labels; entries with equal labels keep their
  order.
\<close>

definition sort_index_columns :: "'v frame \<Rightarrow> 'v frame" where
  "sort_index_columns df =
     (let order = sort_key (\<lambda>i. columns df ! i) [0..<length (columns df)]
      in df\<lparr> columns := map (\<lambda>i. columns df ! i) order,
             rows := map (\<lambda>row. (fst row, map (\<lambda>i. snd row ! i) order)) (rows df) \<rparr>)"

definition sort_index :: "('v::linorder) frame \<Rightarrow> 'v frame" where
  "sort_index df = df\<lparr> rows := sort_key fst (rows df) \<rparr>"

definition new :: "'v frame \<Rightarrow> 'v store \<Rightarrow> addr \<times> 'v store" where
  "new f st = (next_addr st, st\<lparr> objs := (objs st)(next_addr st := f),
                                  next_addr := Suc (next_addr st) \<rparr>)"

text \<open>
  \<open>_indexify\<close>.  \<open>set_index\<close> and the two sorts allocate new frames; the assignment to
  \<open>df.columns\<close> changes the frame \<open>set_index\<close> returned.
\<close>

definition indexify :: "addr \<Rightarrow> ('v::linorder) store \<Rightarrow> (error + addr) \<times> 'v store" where
  "indexify df st =
     (case set_index [''pipe'', ''pos''] (objs st df) of
        Inl e \<Rightarrow> (Inl e, st)
      | Inr f1 \<Rightarrow>
          (case new f1 st of (df1, st1) \<Rightarrow>
          (case set_columns (from_arrays arrays) [''driver'', ''detector'', ''quantity'']
                  (objs st1 df1) of
             Inl e \<Rightarrow> (Inl e, st1)
           | Inr f2 \<Rightarrow>
               (case new (sort_index_columns f2) (st1\<lparr> objs := (objs st1)(df1 := f2) \<rparr>) of
                  (df2, st2) \<Rightarrow>
               (case new (sort_index (objs st2 df2)) st2 of
                  (df3, st3) \<Rightarrow> (Inr df3, st3))))))"

text \<open>The outcome of a call as a value: the error, or the table the returned reference denotes.\<close>

definition denoted :: "(error + addr) \<times> 'v store \<Rightarrow> error + 'v frame" where
  "denoted res = (case fst res of Inl e \<Rightarrow> Inl e | Inr a \<Rightarrow> Inr (objs (snd res) a))"

text \<open>The four steps of \<open>_indexify\<close> on table values.\<close>

definition reshaped :: "('v::linorder) frame \<Rightarrow> error + 'v frame" where
  "reshaped df =
     bind (set_index [''pipe'', ''pos''] df) (\<lambda>df1.
     bind (set_columns (from_arrays arrays) [''driver'', ''detector'', ''quantity''] df1) (\<lambda>df2.
     Inr (sort_index (sort_index_columns df2))))"

text \<open>The table between the relabelling and the sorts, for the key columns at \<open>locs\<close>.\<close>

definition keyed :: "nat list \<Rightarrow> 'v frame \<Rightarrow> 'v frame" where
  "keyed locs df =
     \<lparr> index_names = [''pipe'', ''pos''],
       column_names = [''driver'', ''detector'', ''quantity''],
       columns = from_arrays arrays,
       rows = map (\<lambda>row. (map (\<lambda>i. snd row ! i) locs, drop_at locs (snd row))) (rows df) \<rparr>"

text \<open>
  The order the column sort gives the eight labels (\<open>column_order ! m\<close> is the position,
  before the sort, of the column at position \<open>m\<close> after it), and where it puts each of the
  first seven columns.
\<close>

definition column_order :: "nat list" where
  "column_order = [2, 3, 0, 6, 7, 1, 4, 5]"

definition sorted_labels :: "string list list" where
  "sorted_labels = map (\<lambda>i. from_arrays arrays ! i) column_order"

definition column_place :: "nat list" where
  "column_place = [2, 5, 0, 1, 6, 7, 3]"

section \<open>Concrete inputs\<close>

text \<open>
  A stand-in for the signal library, used where a statement is evaluated on a concrete
  table: it refuses inputs no longer than the pad, as \<open>scipy.signal.filtfilt\<close> does, and
  otherwise halves every sample.
\<close>

definition halving :: "(nat \<times> real) signal" where
  "halving = \<lparr> butter = (\<lambda>n w. (n, w)),
               filtfilt = (\<lambda>c x padlen. if length x \<le> padlen then Inl ValueError
                                        else Inr (map (\<lambda>v. v / 2) x)) \<rparr>"

definition ones :: "real list" where
  "ones = replicate 151 1"

definition halves :: "real list" where
  "halves = replicate 151 (1 / 2)"

definition raw_trace :: trace where
  "raw_trace = [(''t'', ones), (''sig_gen'', ones), (''res_volt'', ones),
                (''rec_volt'', ones), (''sec_volt'', ones)]"

definition cond_trace :: trace where
  "cond_trace = [(''t'', ones), (''sig_gen'', ones), (''res_volt'', halves),
                 (''rec_volt'', halves), (''sec_volt'', halves)]"

definition raw_heap :: heap where
  "raw_heap = (\<lambda>_. [])(0 := raw_trace)"

text \<open>
  A reader that returns \<open>raw_trace\<close> for every file and a fit that reports amplitude 1 and
  phase 0 at every harmonic number; a descriptor of two files.
\<close>

definition demo_env :: "(nat \<times> real) env" where
  "demo_env = \<lparr> CSV = (\<lambda>file_name freq mapper. Inr raw_trace), signal = halving,
                 fit = (\<lambda>hs t y. Inr \<lparr> numbers = hs, omega = 1, amplitudes = map (\<lambda>_. 1) hs,
                                        phases = map (\<lambda>_. 0) hs \<rparr>) \<rparr>"

definition demo_log :: "cell frame" where
  "demo_log = \<lparr> index_names = [], column_names = [],
                 columns = [ [''pos''], [''pipe''], [''file_name''] ],
                 rows = [([], [Num 1, Str ''P1'', Str ''a.csv'']),
                         ([], [Num 2, Str ''P1'', Str ''b.csv''])] \<rparr>"

definition demo_pipe :: "int \<Rightarrow> pipe" where
  "demo_pipe jobs =
     Pipe demo_log [(''a'', ''sig_gen''), (''b'', ''res_volt''), (''c'', ''rec_volt''),
                    (''d'', ''sec_volt'')] jobs True 3"

definition demo_fit :: harmonic where
  "demo_fit = \<lparr> numbers = [1, 3], omega = 1, amplitudes = [1, 1], phases = [0, 0] \<rparr>"

definition demo_record :: "real \<Rightarrow> cell pydict" where
  "demo_record pos =
     [(''pos'', Num pos), (''pipe'', Str ''P1''),
      (''prim_sec_amp'', Num 1), (''prim_sec_phi'', Num (- (pi / 2))),
      (''prim_rec_amp'', Num 1), (''prim_rec_phi'', Num (- (pi / 2))),
      (''sec_rec_amp'', Num 1), (''sec_rec_phi'', Num 0),
      (''sec_harm_db'', Num (10 * log 10 (1 / 2))), (''rec_harm_db'', Num (10 * log 10 (1 / 2)))]"

text \<open>
  A flat result table in which the second and the third row share pipe 7 and position 1,
  and the table \<open>_indexify\<close> makes of it.
\<close>

definition flat_columns :: "string list" where
  "flat_columns = [''pos'', ''pipe''] @ derived_fields"

definition flat_table :: "int frame" where
  "flat_table =
     \<lparr> index_names = [], column_names = [], columns = map (\<lambda>c. [c]) flat_columns,
       rows = [([], [2, 7, 11, 12, 13, 14, 15, 16, 17, 18]),
               ([], [1, 7, 21, 22, 23, 24, 25, 26, 27, 28]),
               ([], [1, 7, 31, 32, 33, 34, 35, 36, 37, 38])] \<rparr>"

definition hier_table :: "int frame" where
  "hier_table =
     \<lparr> index_names = [''pipe'', ''pos''],
       column_names = [''driver'', ''detector'', ''quantity''],
       columns =
          [ [''primary'', ''receiver'', ''amplitude''],
            [''primary'', ''receiver'', ''phase''],
            [''primary'', ''secondary'', ''amplitude''],
            [''primary'', ''secondary'', ''db''],
            [''primary'', ''secondary'', ''db''],
            [''primary'', ''secondary'', ''phase''],
            [''sec'', ''receiver'', ''amplitude''],
            [''sec'', ''receiver'', ''phase''] ],
        rows =
          [([7, 1], [23, 24, 21, 27, 28, 22, 25, 26]),
           ([7, 1], [33, 34, 31, 37, 38, 32, 35, 36]),
           ([7, 2], [13, 14, 11, 17, 18, 12, 15, 16])] \<rparr>"

definition no_frame :: "'v frame" where
  "no_frame = \<lparr> index_names = [], column_names = [], columns = [], rows = [] \<rparr>"

definition flat_store :: "int store" where
  "flat_store = \<lparr> next_addr = 1, objs = (\<lambda>_. no_frame)(0 := flat_table) \<rparr>"

section \<open>Properties of the conditioning step\<close>

lemma bind_Inr_iff: "bind m f = Inr y \<longleftrightarrow> (\<exists>x. m = Inr x \<and> f x = Inr y)"
  by (cases m) (simp_all add: bind_def)

lemma bind_Inr [simp]: "bind (Inr x) f = f x"
  by (simp add: bind_def)

lemma bind_Inl [simp]: "bind (Inl e) f = Inl e"
  by (simp add: bind_def)

lemma filter_loop_other_addr:
  "filter_loop lib df cols h = (r, h') \<Longrightarrow> a \<noteq> df \<Longrightarrow> h' a = h a"
proof (induction cols arbitrary: h)
  case Nil
  then show ?case by simp
next
  case (Cons col cols)
  then show ?case
    by (auto split: option.splits sum.splits if_splits)
qed

lemma filter_loop_names:
  "filter_loop lib df cols h = (r, h') \<Longrightarrow> map fst (h' df) = map fst (h df)"
proof (induction cols arbitrary: h)
  case Nil
  then show ?case by simp
next
  case (Cons col cols)
  show ?case
  proof (cases "map_of (h df) col")
    case None
    with Cons.prems show ?thesis by simp
  next
    case (Some x)
    then have mem: "col \<in> fst ` set (h df)"
      by (metis domI dom_map_of_conv_image_fst)
    show ?thesis
    proof (cases "filtfilt lib (butter lib 8 (1 / 100)) x 150")
      case (Inl e)
      with Some Cons.prems show ?thesis by simp
    next
      case (Inr y)
      show ?thesis
      proof (cases "length y = length x")
        case False
        with Some Inr Cons.prems show ?thesis by simp
      next
        case True
        with Some Inr Cons.prems
        have "filter_loop lib df cols (h(df := AList.update col y (h df))) = (r, h')"
          by simp
        from Cons.IH [OF this] mem show ?thesis
          by (simp add: update_keys)
      qed
    qed
  qed
qed

lemma filter_loop_unfiltered:
  "filter_loop lib df cols h = (r, h') \<Longrightarrow> c \<notin> set cols \<Longrightarrow>
   map_of (h' df) c = map_of (h df) c"
proof (induction cols arbitrary: h)
  case Nil
  then show ?case by simp
next
  case (Cons col cols)
  then show ?case
    by (auto simp: update_conv' split: option.splits sum.splits if_splits)
qed

lemma filter_loop_filtered:
  "filter_loop lib df cols h = (None, h') \<Longrightarrow> distinct cols \<Longrightarrow> c \<in> set cols \<Longrightarrow>
   \<exists>x y. map_of (h df) c = Some x \<and> filtfilt lib (butter lib 8 (1 / 100)) x 150 = Inr y
     \<and> length y = length x \<and> map_of (h' df) c = Some y"
proof (induction cols arbitrary: h)
  case Nil
  then show ?case by simp
next
  case (Cons col cols)
  from Cons.prems(1) obtain x y where
    x: "map_of (h df) col = Some x" and
    y: "filtfilt lib (butter lib 8 (1 / 100)) x 150 = Inr y" and
    len: "length y = length x" and
    rest: "filter_loop lib df cols (h(df := AList.update col y (h df))) = (None, h')"
    by (auto split: option.splits sum.splits if_splits)
  show ?case
  proof (cases "c = col")
    case True
    with Cons.prems(2) have "c \<notin> set cols" by simp
    from filter_loop_unfiltered [OF rest this] True x y len show ?thesis
      by (simp add: update_conv')
  next
    case False
    with Cons.prems have "c \<in> set cols" "distinct cols" by simp_all
    from Cons.IH [OF rest this(2) this(1)] False show ?thesis
      by (simp add: update_conv')
  qed
qed

lemma filter_pipe_Inr:
  assumes "filter_pipe lib df h = (Inr r, h')"
  shows "r = df" and "filter_loop lib df filter_cols h = (None, h')"
  using assms by (auto simp: filter_pipe_def split: prod.splits option.splits)

lemma distinct_filter_cols: "distinct filter_cols"
  by (simp add: filter_cols_def)

lemma filtfilt_halving:
  "filtfilt halving (butter halving 8 (1 / 100)) ones 150 = Inr halves"
  by (simp add: halving_def ones_def halves_def)

lemma filter_pipe_raw:
  "filter_pipe halving 0 raw_heap = (Inr 0, raw_heap(0 := cond_trace))"
  by (simp add: filter_pipe_def filter_cols_def raw_heap_def raw_trace_def cond_trace_def
        filtfilt_halving) (simp add: ones_def halves_def)

text \<open>
  Claim C4, as the code has it.  The conditioning step is not a pure function.  Whenever
  it returns, the reference returned is the reference it was given, the table behind that
  reference has its filtered columns overwritten with the filter's output, the columns keep
  their names and order, and no other table changes.
\<close>

theorem filter_overwrites_in_place:
  assumes "filter_pipe lib df h = (Inr r, h')"
  shows "r = df \<and> (\<forall>a. a \<noteq> df \<longrightarrow> h' a = h a) \<and> map fst (h' df) = map fst (h df) \<and>
         (\<forall>c\<in>set filter_cols. \<exists>x y. map_of (h df) c = Some x \<and>
              filtfilt lib (butter lib 8 (1 / 100)) x 150 = Inr y \<and>
              map_of (h' df) c = Some y)"
proof -
  note loop = filter_pipe_Inr(2) [OF assms]
  have "r = df" using assms by (rule filter_pipe_Inr(1))
  moreover have "\<forall>a. a \<noteq> df \<longrightarrow> h' a = h a"
    using filter_loop_other_addr [OF loop] by blast
  moreover have "map fst (h' df) = map fst (h df)"
    using loop by (rule filter_loop_names)
  moreover have "\<forall>c\<in>set filter_cols. \<exists>x y. map_of (h df) c = Some x \<and>
              filtfilt lib (butter lib 8 (1 / 100)) x 150 = Inr y \<and>
              map_of (h' df) c = Some y"
    using filter_loop_filtered [OF loop distinct_filter_cols] by blast
  ultimately show ?thesis by (intro conjI)
qed

theorem filter_overwrites_in_place_witness:
  "filter_pipe halving 0 raw_heap = (Inr 0, raw_heap(0 := cond_trace)) \<and>
   (raw_heap(0 := cond_trace)) 1 = raw_heap 1 \<and>
   map fst ((raw_heap(0 := cond_trace)) 0) = map fst (raw_heap 0) \<and>
   (\<exists>x y. map_of (raw_heap 0) ''res_volt'' = Some x \<and>
        filtfilt halving (butter halving 8 (1 / 100)) x 150 = Inr y \<and>
        map_of ((raw_heap(0 := cond_trace)) 0) ''res_volt'' = Some y)"
proof -
  from filter_overwrites_in_place [OF filter_pipe_raw]
  have other: "\<forall>a. a \<noteq> 0 \<longrightarrow> (raw_heap(0 := cond_trace)) a = raw_heap a"
    and names: "map fst ((raw_heap(0 := cond_trace)) 0) = map fst (raw_heap 0)"
    and cols: "\<forall>c\<in>set filter_cols. \<exists>x y. map_of (raw_heap 0) c = Some x \<and>
        filtfilt halving (butter halving 8 (1 / 100)) x 150 = Inr y \<and>
        map_of ((raw_heap(0 := cond_trace)) 0) c = Some y"
    by blast+
  from other have "(raw_heap(0 := cond_trace)) 1 = raw_heap 1" by simp
  moreover have "''res_volt'' \<in> set filter_cols" by (simp add: filter_cols_def)
  with cols have "\<exists>x y. map_of (raw_heap 0) ''res_volt'' = Some x \<and>
        filtfilt halving (butter halving 8 (1 / 100)) x 150 = Inr y \<and>
        map_of ((raw_heap(0 := cond_trace)) 0) ''res_volt'' = Some y" by blast
  ultimately show ?thesis using filter_pipe_raw names by (intro conjI)
qed

text \<open>
  The claim as the spec states it fails: after conditioning, the table the caller passed
  holds other samples than before, and the reference returned is the caller's own.
\<close>

theorem filter_pure_counterexample:
  "fst (filter_pipe halving 0 raw_heap) = Inr 0 \<and>
   snd (filter_pipe halving 0 raw_heap) 0 \<noteq> raw_heap 0"
  by (simp add: filter_pipe_raw) (simp add: raw_heap_def raw_trace_def cond_trace_def
        ones_def halves_def)

text \<open>
  Claim C5, as the code has it.  Filtering is applied to exactly the three columns
  \<open>res_volt\<close> (the drive-current channel), \<open>sec_volt\<close> and \<open>rec_volt\<close>: each of them holds
  the filter's output afterwards, and every other column (the time axis, the signal
  generator) keeps its samples.
\<close>

theorem filter_three_columns:
  assumes "filter_pipe lib df h = (Inr r, h')"
  shows "filter_cols = [''res_volt'', ''sec_volt'', ''rec_volt''] \<and>
         (\<forall>c. c \<notin> set filter_cols \<longrightarrow> map_of (h' r) c = map_of (h df) c) \<and>
         (\<forall>c\<in>set filter_cols. \<exists>x y. map_of (h df) c = Some x \<and>
              filtfilt lib (butter lib 8 (1 / 100)) x 150 = Inr y \<and>
              map_of (h' r) c = Some y)"
proof -
  note loop = filter_pipe_Inr(2) [OF assms]
  have r: "r = df" using assms by (rule filter_pipe_Inr(1))
  have "\<forall>c. c \<notin> set filter_cols \<longrightarrow> map_of (h' df) c = map_of (h df) c"
    using filter_loop_unfiltered [OF loop] by blast
  moreover have "\<forall>c\<in>set filter_cols. \<exists>x y. map_of (h df) c = Some x \<and>
              filtfilt lib (butter lib 8 (1 / 100)) x 150 = Inr y \<and>
              map_of (h' df) c = Some y"
    using filter_loop_filtered [OF loop distinct_filter_cols] by blast
  ultimately show ?thesis
    unfolding r by (intro conjI) (simp_all add: filter_cols_def)
qed

theorem filter_three_columns_witness:
  "filter_pipe halving 0 raw_heap = (Inr 0, raw_heap(0 := cond_trace)) \<and>
   filter_cols = [''res_volt'', ''sec_volt'', ''rec_volt''] \<and>
   map_of ((raw_heap(0 := cond_trace)) 0) ''sig_gen'' = map_of (raw_heap 0) ''sig_gen'' \<and>
   map_of ((raw_heap(0 := cond_trace)) 0) ''t'' = map_of (raw_heap 0) ''t'' \<and>
   (\<exists>x y. map_of (raw_heap 0) ''rec_volt'' = Some x \<and>
        filtfilt halving (butter halving 8 (1 / 100)) x 150 = Inr y \<and>
        map_of ((raw_heap(0 := cond_trace)) 0) ''rec_volt'' = Some y)"
proof -
  from filter_three_columns [OF filter_pipe_raw]
  have names: "filter_cols = [''res_volt'', ''sec_volt'', ''rec_volt'']"
    and other: "\<forall>c. c \<notin> set filter_cols \<longrightarrow>
        map_of ((raw_heap(0 := cond_trace)) 0) c = map_of (raw_heap 0) c"
    and cols: "\<forall>c\<in>set filter_cols. \<exists>x y. map_of (raw_heap 0) c = Some x \<and>
        filtfilt halving (butter halving 8 (1 / 100)) x 150 = Inr y \<and>
        map_of ((raw_heap(0 := cond_trace)) 0) c = Some y"
    by blast+
  have "''sig_gen'' \<notin> set filter_cols" "''t'' \<notin> set filter_cols"
    by (simp_all add: filter_cols_def)
  with other have
    "map_of ((raw_heap(0 := cond_trace)) 0) ''sig_gen'' = map_of (raw_heap 0) ''sig_gen''"
    "map_of ((raw_heap(0 := cond_trace)) 0) ''t'' = map_of (raw_heap 0) ''t''"
    by blast+
  moreover have "''rec_volt'' \<in> set filter_cols" by (simp add: filter_cols_def)
  with cols have "\<exists>x y. map_of (raw_heap 0) ''rec_volt'' = Some x \<and>
        filtfilt halving (butter halving 8 (1 / 100)) x 150 = Inr y \<and>
        map_of ((raw_heap(0 := cond_trace)) 0) ''rec_volt'' = Some y" by blast
  ultimately show ?thesis using filter_pipe_raw names by (intro conjI)
qed

text \<open>
  The claim as the spec states it fails: the drive channel \<open>res_volt\<close> is filtered too.
\<close>

theorem filter_drive_channel_counterexample:
  "map_of (raw_heap 0) ''res_volt'' = Some ones \<and>
   filtfilt halving (butter halving 8 (1 / 100)) ones 150 = Inr halves \<and>
   map_of (snd (filter_pipe halving 0 raw_heap) 0) ''res_volt'' = Some halves \<and>
   halves \<noteq> ones"
  by (simp add: filter_pipe_raw filtfilt_halving)
     (simp add: raw_heap_def raw_trace_def cond_trace_def ones_def halves_def)

text \<open>
  Claim C6.  Every column that is filtered is replaced by the output of the forward and
  backward filter run on its samples with the coefficients of the Butterworth design of
  order 8 and cutoff 0.01 of the Nyquist frequency, with a pad of 150 samples; the output
  has as many samples as the input.
\<close>

theorem filter_butterworth_8_pad_150:
  assumes "filter_pipe lib df h = (Inr r, h')" and "c \<in> set filter_cols"
  shows "\<exists>x y. map_of (h df) c = Some x \<and>
           filtfilt lib (butter lib 8 (1 / 100)) x 150 = Inr y \<and>
           length y = length x \<and> map_of (h' r) c = Some y"
  using filter_loop_filtered [OF filter_pipe_Inr(2) [OF assms(1)] distinct_filter_cols assms(2)]
    filter_pipe_Inr(1) [OF assms(1)]
  by simp

theorem filter_butterworth_8_pad_150_witness:
  "filter_pipe halving 0 raw_heap = (Inr 0, raw_heap(0 := cond_trace)) \<and>
   ''sec_volt'' \<in> set filter_cols \<and>
   (\<exists>x y. map_of (raw_heap 0) ''sec_volt'' = Some x \<and>
      filtfilt halving (butter halving 8 (1 / 100)) x 150 = Inr y \<and>
      length y = length x \<and> map_of ((raw_heap(0 := cond_trace)) 0) ''sec_volt'' = Some y)"
proof -
  have c: "''sec_volt'' \<in> set filter_cols" by (simp add: filter_cols_def)
  from filter_butterworth_8_pad_150 [OF filter_pipe_raw c] filter_pipe_raw c
  show ?thesis by (intro conjI)
qed

section \<open>Properties of the per-file analysis\<close>

lemma process_file_Inr_D:
  assumes "process_file env self file_name key_dict = Inr out"
  shows "\<exists>df h_res h_sec h_rec z_ps z_pr z_sr a1 p1 a2 p2 a3 p3 d1 d2.
     conditioned env self file_name = Inr df \<and>
     fit_channel env self df ''res_volt'' = Inr h_res \<and>
     fit_channel env self df ''sec_volt'' = Inr h_sec \<and>
     fit_channel env self df ''rec_volt'' = Inr h_rec \<and>
     divide_h h_sec (derivative h_res) = Inr z_ps \<and>
     divide_h h_rec (derivative h_res) = Inr z_pr \<and>
     divide_h h_rec h_sec = Inr z_sr \<and>
     item (amplitudes z_ps) 0 = Inr a1 \<and> item (phases z_ps) 0 = Inr p1 \<and>
     item (amplitudes z_pr) 0 = Inr a2 \<and> item (phases z_pr) 0 = Inr p2 \<and>
     item (amplitudes z_sr) 0 = Inr a3 \<and> item (phases z_sr) 0 = Inr p3 \<and>
     harm_db (amplitudes h_sec) = Inr d1 \<and> harm_db (amplitudes h_rec) = Inr d2 \<and>
     out = dict_update key_dict
       [(''prim_sec_amp'', Num a1), (''prim_sec_phi'', Num p1),
        (''prim_rec_amp'', Num a2), (''prim_rec_phi'', Num p2),
        (''sec_rec_amp'', Num a3), (''sec_rec_phi'', Num p3),
        (''sec_harm_db'', Num d1), (''rec_harm_db'', Num d2)]"
  using assms unfolding process_file_def Let_def bind_Inr_iff by blast

lemma keys_dict_update:
  "set (map fst (dict_update d r)) = set (map fst d) \<union> set (map fst r)"
  unfolding dict_update_def
proof (induction r arbitrary: d)
  case Nil
  then show ?case by simp
next
  case (Cons kv r)
  have "set (map fst (AList.update (fst kv) (snd kv) d)) = insert (fst kv) (set (map fst d))"
    using dom_update [of "fst kv" "snd kv" d] by simp
  with Cons.IH [of "AList.update (fst kv) (snd kv) d"] show ?case by auto
qed

lemma map_of_dict_update_other:
  "k \<notin> set (map fst r) \<Longrightarrow> map_of (dict_update d r) k = map_of d k"
  unfolding dict_update_def
  by (induction r arbitrary: d) (auto simp: update_conv')




lemma conditioned_demo:
  "conditioned demo_env (demo_pipe jobs) file_name = Inr cond_trace"
  by (simp add: conditioned_def demo_env_def filter_pipe_raw [unfolded raw_heap_def])

lemma fit_channel_demo:
  "c \<in> set filter_cols \<Longrightarrow> fit_channel demo_env (demo_pipe jobs) cond_trace c = Inr demo_fit"
  by (auto simp: fit_channel_def attr_def cond_trace_def demo_env_def demo_pipe_def Pipe_def
        demo_fit_def filter_cols_def)

lemma process_file_demo:
  "process_file demo_env (demo_pipe jobs) file_name [(''pos'', Num pos), (''pipe'', Str ''P1'')]
     = Inr (demo_record pos)"
  unfolding process_file_def conditioned_demo Let_def
  by (simp add: fit_channel_demo filter_cols_def)
     (simp add: demo_fit_def derivative_def divide_h_def item_def harm_db_def dict_update_def
        demo_record_def)

text \<open>
  Claim C2.  Whenever the analysis of a file returns a record, the three channels of the
  conditioned table were fitted, the three ratios formed are secondary over the derivative
  of the drive fit, receiver over the derivative of the drive fit, and receiver over
  secondary, and the six amplitude and phase fields hold the first entry (the fundamental)
  of these ratios.  The keys of the record are the caller's key fields together with the
  eight derived fields, and a key field that does not bear the name of a derived field
  keeps the caller's value.
\<close>

theorem process_file_three_ratios:
  assumes "process_file env self file_name key_dict = Inr out"
  shows "\<exists>df h_res h_sec h_rec z_ps z_pr z_sr a1 p1 a2 p2 a3 p3.
     conditioned env self file_name = Inr df \<and>
     fit_channel env self df ''res_volt'' = Inr h_res \<and>
     fit_channel env self df ''sec_volt'' = Inr h_sec \<and>
     fit_channel env self df ''rec_volt'' = Inr h_rec \<and>
     divide_h h_sec (derivative h_res) = Inr z_ps \<and>
     divide_h h_rec (derivative h_res) = Inr z_pr \<and>
     divide_h h_rec h_sec = Inr z_sr \<and>
     item (amplitudes z_ps) 0 = Inr a1 \<and> item (phases z_ps) 0 = Inr p1 \<and>
     item (amplitudes z_pr) 0 = Inr a2 \<and> item (phases z_pr) 0 = Inr p2 \<and>
     item (amplitudes z_sr) 0 = Inr a3 \<and> item (phases z_sr) 0 = Inr p3 \<and>
     map_of out ''prim_sec_amp'' = Some (Num a1) \<and> map_of out ''prim_sec_phi'' = Some (Num p1) \<and>
     map_of out ''prim_rec_amp'' = Some (Num a2) \<and> map_of out ''prim_rec_phi'' = Some (Num p2) \<and>
     map_of out ''sec_rec_amp'' = Some (Num a3) \<and> map_of out ''sec_rec_phi'' = Some (Num p3) \<and>
     set (map fst out) = set (map fst key_dict) \<union> set derived_fields \<and>
     (\<forall>k. k \<notin> set derived_fields \<longrightarrow> map_of out k = map_of key_dict k)"
proof -
  from process_file_Inr_D [OF assms]
  obtain df h_res h_sec h_rec z_ps z_pr z_sr a1 p1 a2 p2 a3 p3 d1 d2 where
    steps: "conditioned env self file_name = Inr df"
      "fit_channel env self df ''res_volt'' = Inr h_res"
      "fit_channel env self df ''sec_volt'' = Inr h_sec"
      "fit_channel env self df ''rec_volt'' = Inr h_rec"
      "divide_h h_sec (derivative h_res) = Inr z_ps"
      "divide_h h_rec (derivative h_res) = Inr z_pr"
      "divide_h h_rec h_sec = Inr z_sr"
      "item (amplitudes z_ps) 0 = Inr a1" "item (phases z_ps) 0 = Inr p1"
      "item (amplitudes z_pr) 0 = Inr a2" "item (phases z_pr) 0 = Inr p2"
      "item (amplitudes z_sr) 0 = Inr a3" "item (phases z_sr) 0 = Inr p3" and
    out: "out = dict_update key_dict
       [(''prim_sec_amp'', Num a1), (''prim_sec_phi'', Num p1),
        (''prim_rec_amp'', Num a2), (''prim_rec_phi'', Num p2),
        (''sec_rec_amp'', Num a3), (''sec_rec_phi'', Num p3),
        (''sec_harm_db'', Num d1), (''rec_harm_db'', Num d2)]"
    by blast
  have fields: "map_of out ''prim_sec_amp'' = Some (Num a1)"
    "map_of out ''prim_sec_phi'' = Some (Num p1)"
    "map_of out ''prim_rec_amp'' = Some (Num a2)"
    "map_of out ''prim_rec_phi'' = Some (Num p2)"
    "map_of out ''sec_rec_amp'' = Some (Num a3)"
    "map_of out ''sec_rec_phi'' = Some (Num p3)"
    by (simp_all add: out dict_update_def update_conv')
  have keys: "set (map fst out) = set (map fst key_dict) \<union> set derived_fields"
    unfolding out keys_dict_update by (simp add: derived_fields_def)
  have keep: "\<forall>k. k \<notin> set derived_fields \<longrightarrow> map_of out k = map_of key_dict k"
    unfolding out
    by (intro allI impI map_of_dict_update_other) (simp add: derived_fields_def)
  from steps fields keys keep show ?thesis by blast
qed

theorem process_file_three_ratios_witness:
  "process_file demo_env (demo_pipe 1) (Str ''a.csv'') [(''pos'', Num 1), (''pipe'', Str ''P1'')]
     = Inr (demo_record 1) \<and>
   (\<exists>df h_res h_sec h_rec z_ps z_pr z_sr a1 p1 a2 p2 a3 p3.
     conditioned demo_env (demo_pipe 1) (Str ''a.csv'') = Inr df \<and>
     fit_channel demo_env (demo_pipe 1) df ''res_volt'' = Inr h_res \<and>
     fit_channel demo_env (demo_pipe 1) df ''sec_volt'' = Inr h_sec \<and>
     fit_channel demo_env (demo_pipe 1) df ''rec_volt'' = Inr h_rec \<and>
     divide_h h_sec (derivative h_res) = Inr z_ps \<and>
     divide_h h_rec (derivative h_res) = Inr z_pr \<and>
     divide_h h_rec h_sec = Inr z_sr \<and>
     item (amplitudes z_ps) 0 = Inr a1 \<and> item (phases z_ps) 0 = Inr p1 \<and>
     item (amplitudes z_pr) 0 = Inr a2 \<and> item (phases z_pr) 0 = Inr p2 \<and>
     item (amplitudes z_sr) 0 = Inr a3 \<and> item (phases z_sr) 0 = Inr p3 \<and>
     map_of (demo_record 1) ''prim_sec_amp'' = Some (Num a1) \<and>
     map_of (demo_record 1) ''prim_sec_phi'' = Some (Num p1) \<and>
     map_of (demo_record 1) ''prim_rec_amp'' = Some (Num a2) \<and>
     map_of (demo_record 1) ''prim_rec_phi'' = Some (Num p2) \<and>
     map_of (demo_record 1) ''sec_rec_amp'' = Some (Num a3) \<and>
     map_of (demo_record 1) ''sec_rec_phi'' = Some (Num p3) \<and>
     set (map fst (demo_record 1)) =
       set (map fst [(''pos'', Num 1), (''pipe'', Str ''P1'')]) \<union> set derived_fields \<and>
     (\<forall>k. k \<notin> set derived_fields \<longrightarrow>
        map_of (demo_record 1) k = map_of [(''pos'', Num 1), (''pipe'', Str ''P1'')] k))"
  using process_file_three_ratios [OF process_file_demo [of 1 "Str ''a.csv''" 1] ]
    process_file_demo [of 1 "Str ''a.csv''" 1]
  by (intro conjI)



section \<open>Properties of batch processing\<close>

lemma delayed_apply: "delayed func a (b::'v pydict) = Inr ((a, b), b)"
  by (simp add: delayed_def)

lemma submit_delayed_Cons:
  "submit (delayed func) cols kn (row # rest) st =
     bind (prepare cols kn (snd row)) (\<lambda>args.
       submit (delayed func) cols kn rest (fst st @ [args], Some (snd args)))"
  by (simp add: delayed_apply)

lemma fake_delayed_apply: "fake_delayed func a b = bind (func a b) (\<lambda>out. Inr (out, out))"
  by (simp add: fake_delayed_def)

lemma submit_fake_Cons:
  "submit (fake_delayed func) cols kn (row # rest) st =
     bind (prepare cols kn (snd row)) (\<lambda>args.
     bind (func (fst args) (snd args)) (\<lambda>out.
       submit (fake_delayed func) cols kn rest (fst st @ [out], Some out)))"
  apply (simp add: fake_delayed_apply)
  apply (cases "prepare cols kn (snd row)")
   apply simp
  subgoal for args
    by (cases "func (fst args) (snd args)") simp_all
  done

lemma submit_delayed_Inr:
  "submit (delayed func) cols kn rs st = Inr st' \<Longrightarrow>
   \<exists>tasks. map (\<lambda>row. prepare cols kn (snd row)) rs = map Inr tasks \<and>
     fst st' = fst st @ tasks \<and>
     snd st' = (if rs = [] then snd st else Some (snd (last tasks)))"
proof (induction rs arbitrary: st)
  case Nil
  then show ?case by simp
next
  case (Cons row rest)
  from Cons.prems obtain args where
    args: "prepare cols kn (snd row) = Inr args" and
    rest: "submit (delayed func) cols kn rest (fst st @ [args], Some (snd args)) = Inr st'"
    unfolding submit_delayed_Cons bind_Inr_iff by blast
  from Cons.IH [OF rest] obtain tasks where
    t: "map (\<lambda>row. prepare cols kn (snd row)) rest = map Inr tasks"
       "fst st' = (fst st @ [args]) @ tasks"
       "snd st' = (if rest = [] then Some (snd args) else Some (snd (last tasks)))"
    by auto
  from t(1) have "rest = [] \<longleftrightarrow> tasks = []" by auto
  with args t show ?case
    by (intro exI [of _ "args # tasks"]) auto
qed

lemma submit_delayed_ok:
  "map (\<lambda>row. prepare cols kn (snd row)) rs = map Inr tasks \<Longrightarrow>
   submit (delayed func) cols kn rs st =
     Inr (fst st @ tasks, if rs = [] then snd st else Some (snd (last tasks)))"
proof (induction rs arbitrary: st tasks)
  case Nil
  then show ?case by simp
next
  case (Cons row rest)
  then obtain a as where tasks: "tasks = a # as" by (cases tasks) auto
  with Cons.prems have a: "prepare cols kn (snd row) = Inr a"
    and as: "map (\<lambda>row. prepare cols kn (snd row)) rest = map Inr as" by auto
  from as have "rest = [] \<longleftrightarrow> as = []" by auto
  with Cons.IH [OF as, of "(fst st @ [a], Some (snd a))"] a tasks show ?case
    unfolding submit_delayed_Cons by auto
qed

lemma submit_fake_Inr:
  "submit (fake_delayed func) cols kn rs st = Inr st' \<Longrightarrow>
   \<exists>recs. map (\<lambda>row. bind (prepare cols kn (snd row)) (\<lambda>a. func (fst a) (snd a))) rs = map Inr recs \<and>
     fst st' = fst st @ recs \<and>
     snd st' = (if rs = [] then snd st else Some (last recs))"
proof (induction rs arbitrary: st)
  case Nil
  then show ?case by simp
next
  case (Cons row rest)
  from Cons.prems obtain args out where
    args: "prepare cols kn (snd row) = Inr args" and
    out: "func (fst args) (snd args) = Inr out" and
    rest: "submit (fake_delayed func) cols kn rest (fst st @ [out], Some out) = Inr st'"
    unfolding submit_fake_Cons bind_Inr_iff by blast
  from Cons.IH [OF rest] obtain recs where
    t: "map (\<lambda>row. bind (prepare cols kn (snd row)) (\<lambda>a. func (fst a) (snd a))) rest = map Inr recs"
       "fst st' = (fst st @ [out]) @ recs"
       "snd st' = (if rest = [] then Some out else Some (last recs))"
    by auto
  from t(1) have "rest = [] \<longleftrightarrow> recs = []" by auto
  with args out t show ?case
    by (intro exI [of _ "out # recs"]) auto
qed

lemma submit_fake_ok:
  "map (\<lambda>row. bind (prepare cols kn (snd row)) (\<lambda>a. func (fst a) (snd a))) rs = map Inr recs \<Longrightarrow>
   submit (fake_delayed func) cols kn rs st =
     Inr (fst st @ recs, if rs = [] then snd st else Some (last recs))"
proof (induction rs arbitrary: st recs)
  case Nil
  then show ?case by simp
next
  case (Cons row rest)
  then obtain r rs' where recs: "recs = r # rs'" by (cases recs) auto
  with Cons.prems have r: "bind (prepare cols kn (snd row)) (\<lambda>a. func (fst a) (snd a)) = Inr r"
    and rs': "map (\<lambda>row. bind (prepare cols kn (snd row)) (\<lambda>a. func (fst a) (snd a))) rest = map Inr rs'"
    by auto
  from r obtain a where a: "prepare cols kn (snd row) = Inr a" "func (fst a) (snd a) = Inr r"
    by (auto simp: bind_Inr_iff)
  from rs' have "rest = [] \<longleftrightarrow> rs' = []" by auto
  with Cons.IH [OF rs', of "(fst st @ [r], Some r)"] a recs show ?case
    unfolding submit_fake_Cons by auto
qed

lemma run_schedule_Inr:
  "run_schedule func tasks sched slots = Inr slots' \<Longrightarrow> length slots = length tasks \<Longrightarrow>
   length slots' = length tasks \<and>
   (\<forall>j<length tasks. if j \<in> set sched
      then \<exists>r. func (fst (tasks ! j)) (snd (tasks ! j)) = Inr r \<and> slots' ! j = Some r
      else slots' ! j = slots ! j)"
proof (induction sched arbitrary: slots)
  case Nil
  then show ?case by simp
next
  case (Cons i sched)
  show ?case
  proof (cases "i < length tasks")
    case False
    with Cons.prems have "run_schedule func tasks sched slots = Inr slots'" by simp
    from Cons.IH [OF this Cons.prems(2)] False show ?thesis by auto
  next
    case True
    with Cons.prems obtain r where
      r: "func (fst (tasks ! i)) (snd (tasks ! i)) = Inr r" and
      rest: "run_schedule func tasks sched (slots[i := Some r]) = Inr slots'"
      by (auto simp: bind_Inr_iff)
    from Cons.prems(2) have "length (slots[i := Some r]) = length tasks" by simp
    from Cons.IH [OF rest this] have
      len: "length slots' = length tasks" and
      ih: "\<forall>j<length tasks. if j \<in> set sched
            then \<exists>r. func (fst (tasks ! j)) (snd (tasks ! j)) = Inr r \<and> slots' ! j = Some r
            else slots' ! j = (slots[i := Some r]) ! j"
      by simp_all
    show ?thesis
    proof (intro conjI allI impI)
      show "length slots' = length tasks" by (rule len)
    next
      fix j assume j: "j < length tasks"
      with ih have *: "if j \<in> set sched
            then \<exists>r. func (fst (tasks ! j)) (snd (tasks ! j)) = Inr r \<and> slots' ! j = Some r
            else slots' ! j = (slots[i := Some r]) ! j" by blast
      show "if j \<in> set (i # sched)
         then \<exists>r. func (fst (tasks ! j)) (snd (tasks ! j)) = Inr r \<and> slots' ! j = Some r
         else slots' ! j = slots ! j"
      proof (cases "j \<in> set sched")
        case True
        with * show ?thesis by simp
      next
        case False
        with * have "slots' ! j = (slots[i := Some r]) ! j" by simp
        with False r j Cons.prems(2) show ?thesis
          by (cases "j = i") simp_all
      qed
    qed
  qed
qed

lemma run_schedule_ok:
  "\<forall>j<length tasks. func (fst (tasks ! j)) (snd (tasks ! j)) = Inr (rs ! j) \<Longrightarrow>
   \<exists>slots'. run_schedule func tasks sched slots = Inr slots'"
proof (induction sched arbitrary: slots)
  case Nil
  then show ?case by simp
next
  case (Cons i sched)
  then show ?case by (cases "i < length tasks") simp_all
qed

lemma compute_Inr:
  assumes "compute func sched tasks = Inr rs" and "{..<length tasks} \<subseteq> set sched"
  shows "map (\<lambda>a. func (fst a) (snd a)) tasks = map Inr rs"
proof -
  from assms(1) obtain slots' where
    run: "run_schedule func tasks sched (replicate (length tasks) None) = Inr slots'" and
    rs: "rs = map the slots'"
    by (auto simp: compute_def bind_Inr_iff)
  from run_schedule_Inr [OF run] have
    len: "length slots' = length tasks" and
    all: "\<forall>j<length tasks. if j \<in> set sched
      then \<exists>r. func (fst (tasks ! j)) (snd (tasks ! j)) = Inr r \<and> slots' ! j = Some r
      else slots' ! j = replicate (length tasks) None ! j"
    by simp_all
  show ?thesis
  proof (rule nth_equalityI)
    show "length (map (\<lambda>a. func (fst a) (snd a)) tasks) = length (map Inr rs)"
      using len rs by simp
  next
    fix j assume "j < length (map (\<lambda>a. func (fst a) (snd a)) tasks)"
    then have j: "j < length tasks" by simp
    with assms(2) have "j \<in> set sched" by auto
    from all j have "if j \<in> set sched
      then \<exists>r. func (fst (tasks ! j)) (snd (tasks ! j)) = Inr r \<and> slots' ! j = Some r
      else slots' ! j = replicate (length tasks) None ! j" by blast
    with \<open>j \<in> set sched\<close> obtain r where
      "func (fst (tasks ! j)) (snd (tasks ! j)) = Inr r" "slots' ! j = Some r"
      by auto
    with j len rs show "map (\<lambda>a. func (fst a) (snd a)) tasks ! j = map Inr rs ! j"
      by simp
  qed
qed

lemma compute_ok:
  assumes "map (\<lambda>a. func (fst a) (snd a)) tasks = map Inr rs" and "{..<length tasks} \<subseteq> set sched"
  shows "compute func sched tasks = Inr rs"
proof -
  from assms(1) have len: "length rs = length tasks"
    by (metis length_map)
  from assms(1) have ok: "\<forall>j<length tasks. func (fst (tasks ! j)) (snd (tasks ! j)) = Inr (rs ! j)"
    by (metis (no_types, lifting) len nth_map)
  from run_schedule_ok [OF ok] obtain slots' where
    run: "run_schedule func tasks sched (replicate (length tasks) None) = Inr slots'" by blast
  then have c: "compute func sched tasks = Inr (map the slots')"
    by (simp add: compute_def)
  from compute_Inr [OF c assms(2)] assms(1) have "map Inr (map the slots') = (map Inr rs :: (error + _) list)"
    by simp
  then have "map the slots' = rs"
    by (rule inj_map_eq_map [OF inj_Inr, THEN iffD1])
  with c show ?thesis by simp
qed

lemma schedule_covers:
  assumes sched: "mset sched = mset [0..<n]"
  shows "{..<n} \<subseteq> set sched"
proof -
  from sched have "set_mset (mset sched) = set_mset (mset [0..<n])"
    by (rule arg_cong)
  then have "set sched = {0..<n}" by (simp only: set_mset_mset set_upt)
  then show ?thesis by (simp only: lessThan_atLeast0 subset_refl)
qed

lemma run_schedule_no_tasks: "run_schedule func [] sched slots = Inr slots"
  by (induction sched) simp_all

lemma map_bind_split:
  "map (\<lambda>x. bind (g x) f) xs = map Inr zs \<Longrightarrow>
   \<exists>ys. map g xs = map Inr ys \<and> map f ys = map Inr zs"
proof (induction xs arbitrary: zs)
  case Nil
  then show ?case by simp
next
  case (Cons x xs)
  then obtain z zs' where zs: "zs = z # zs'" by (cases zs) auto
  with Cons.prems have hd: "bind (g x) f = Inr z"
    and tl: "map (\<lambda>x. bind (g x) f) xs = map Inr zs'" by auto
  from hd obtain y where y: "g x = Inr y" "f y = Inr z" by (auto simp: bind_Inr_iff)
  from Cons.IH [OF tl] obtain ys where "map g xs = map Inr ys" "map f ys = map Inr zs'" by blast
  with y zs show ?case by (intro exI [of _ "y # ys"]) simp
qed

lemma map_bind_join:
  "map g xs = map Inr ys \<Longrightarrow> map f ys = map Inr zs \<Longrightarrow>
   map (\<lambda>x. bind (g x) f) xs = map Inr zs"
proof (induction xs arbitrary: ys zs)
  case Nil
  then show ?case by simp
next
  case (Cons x xs)
  then obtain y ys' where ys: "ys = y # ys'" by (cases ys) auto
  with Cons.prems obtain z zs' where zs: "zs = z # zs'" by (cases zs) auto
  with ys Cons.prems Cons.IH [of ys' zs'] show ?case by auto
qed

lemma finish_Inr_iff:
  "finish kd recs = Inr tbl \<longleftrightarrow> (\<exists>d. kd = Some d \<and> tbl = DataFrame recs (map fst d @ derived_fields))"
  by (cases kd) (auto simp: finish_def)

lemma all_Inr_iff:
  "(\<forall>x\<in>set xs. \<exists>r. g x = Inr r) \<longleftrightarrow> (\<exists>ys. map g xs = map Inr ys)"
proof (induction xs)
  case Nil
  then show ?case by simp
next
  case (Cons x xs)
  show ?case
  proof
    assume "\<forall>x\<in>set (x # xs). \<exists>r. g x = Inr r"
    with Cons.IH obtain r ys where "g x = Inr r" "map g xs = map Inr ys" by auto
    then have "map g (x # xs) = map Inr (r # ys)" by simp
    then show "\<exists>ys. map g (x # xs) = map Inr ys" by blast
  next
    assume "\<exists>ys. map g (x # xs) = map Inr ys"
    then obtain ys where ys: "map g (x # xs) = map Inr ys" by blast
    then obtain r ys' where "ys = r # ys'" by (cases ys) auto
    with ys Cons.IH show "\<forall>x\<in>set (x # xs). \<exists>r. g x = Inr r" by auto
  qed
qed

lemma process_unfold:
  "process env sched self =
     (if n_jobs self > 1 then
        bind (submit (delayed (process_file env self)) (columns (df_log self))
                (filter (\<lambda>c. c \<noteq> ''file_name'') (map top_level (columns (df_log self))))
                (rows (df_log self)) ([], None)) (\<lambda>st.
        bind (compute (process_file env self) sched (fst st)) (\<lambda>rec_lst.
        finish (snd st) rec_lst))
      else
        bind (submit (fake_delayed (process_file env self)) (columns (df_log self))
                (filter (\<lambda>c. c \<noteq> ''file_name'') (map top_level (columns (df_log self))))
                (rows (df_log self)) ([], None)) (\<lambda>st.
        finish (snd st) (fake_compute (fst st))))"
  by (simp add: process_def Let_def)

lemma row_record_unfold:
  "row_record env self =
     (\<lambda>row. bind (prepare (columns (df_log self))
                (filter (\<lambda>c. c \<noteq> ''file_name'') (map top_level (columns (df_log self)))) (snd row))
              (\<lambda>a. process_file env self (fst a) (snd a)))"
  by (simp add: row_record_def fun_eq_iff)

lemma process_Inr_D:
  assumes sched: "{..<length (rows (df_log self))} \<subseteq> set sched"
    and ret: "process env sched self = Inr tbl"
  shows "rows (df_log self) \<noteq> [] \<and>
         (\<exists>recs cols. map (row_record env self) (rows (df_log self)) = map Inr recs \<and>
            tbl = DataFrame recs cols)"
proof -
  define cols where "cols = columns (df_log self)"
  define kn where "kn = filter (\<lambda>c. c \<noteq> ''file_name'') (map top_level cols)"
  define rs where "rs = rows (df_log self)"
  define f where "f = (\<lambda>a. process_file env self (fst a) (snd a))"
  have rr: "row_record env self = (\<lambda>row. bind (prepare cols kn (snd row)) f)"
    by (simp add: row_record_unfold cols_def kn_def f_def)
  show ?thesis
  proof (cases "n_jobs self > 1")
    case True
    with ret have "bind (submit (delayed (process_file env self)) cols kn rs ([], None)) (\<lambda>st.
        bind (compute (process_file env self) sched (fst st)) (\<lambda>rec_lst.
        finish (snd st) rec_lst)) = Inr tbl"
      by (simp add: process_unfold cols_def kn_def rs_def)
    then obtain st recs where
      st: "submit (delayed (process_file env self)) cols kn rs ([], None) = Inr st" and
      c: "compute (process_file env self) sched (fst st) = Inr recs" and
      fin: "finish (snd st) recs = Inr tbl"
      unfolding bind_Inr_iff by blast
    from submit_delayed_Inr [OF st] obtain tasks where
      tasks: "map (\<lambda>row. prepare cols kn (snd row)) rs = map Inr tasks" and
      fst: "fst st = tasks" and
      snd: "snd st = (if rs = [] then None else Some (snd (last tasks)))"
      by auto
    from tasks have len: "length tasks = length rs" by (metis length_map)
    from fin snd have ne: "rs \<noteq> []" by (auto simp: finish_Inr_iff split: if_splits)
    from sched len have "{..<length tasks} \<subseteq> set sched" by (simp add: rs_def)
    from compute_Inr [OF c [unfolded fst] this]
    have "map f tasks = map Inr recs" by (simp add: f_def)
    from map_bind_join [OF tasks this] have "map (row_record env self) rs = map Inr recs"
      by (simp add: rr)
    with ne fin show ?thesis
      by (auto simp: finish_Inr_iff rs_def)
  next
    case False
    with ret have "bind (submit (fake_delayed (process_file env self)) cols kn rs ([], None)) (\<lambda>st.
        finish (snd st) (fake_compute (fst st))) = Inr tbl"
      by (simp add: process_unfold cols_def kn_def rs_def)
    then obtain st where
      st: "submit (fake_delayed (process_file env self)) cols kn rs ([], None) = Inr st" and
      fin: "finish (snd st) (fake_compute (fst st)) = Inr tbl"
      unfolding bind_Inr_iff by blast
    from submit_fake_Inr [OF st] obtain recs where
      recs: "map (\<lambda>row. bind (prepare cols kn (snd row)) f) rs = map Inr recs" and
      fst: "fst st = recs" and
      snd: "snd st = (if rs = [] then None else Some (last recs))"
      by (auto simp: f_def)
    from fin snd have ne: "rs \<noteq> []" by (auto simp: finish_Inr_iff split: if_splits)
    from recs have "map (row_record env self) rs = map Inr recs" by (simp add: rr)
    with ne fin fst show ?thesis
      by (auto simp: finish_Inr_iff rs_def fake_compute_def)
  qed
qed

lemma process_ok:
  assumes sched: "{..<length (rows (df_log self))} \<subseteq> set sched"
    and ne: "rows (df_log self) \<noteq> []"
    and recs: "map (row_record env self) (rows (df_log self)) = map Inr recs"
  shows "\<exists>cols. process env sched self = Inr (DataFrame recs cols)"
proof -
  define cols where "cols = columns (df_log self)"
  define kn where "kn = filter (\<lambda>c. c \<noteq> ''file_name'') (map top_level cols)"
  define rs where "rs = rows (df_log self)"
  define f where "f = (\<lambda>a. process_file env self (fst a) (snd a))"
  have rr: "row_record env self = (\<lambda>row. bind (prepare cols kn (snd row)) f)"
    by (simp add: row_record_unfold cols_def kn_def f_def)
  from recs have recs': "map (\<lambda>x. bind ((\<lambda>row. prepare cols kn (snd row)) x) f) rs = map Inr recs"
    by (simp add: rr rs_def)
  from ne have ne': "rs \<noteq> []" by (simp add: rs_def)
  show ?thesis
  proof (cases "n_jobs self > 1")
    case True
    from map_bind_split [OF recs'] obtain tasks where
      tasks: "map (\<lambda>row. prepare cols kn (snd row)) rs = map Inr tasks" and
      ft: "map f tasks = map Inr recs" by blast
    from tasks have len: "length tasks = length rs" by (metis length_map)
    from sched len have s: "{..<length tasks} \<subseteq> set sched" by (simp add: rs_def)
    from ft have "map (\<lambda>a. process_file env self (fst a) (snd a)) tasks = map Inr recs"
      by (simp add: f_def)
    from compute_ok [OF this s] submit_delayed_ok [OF tasks, of "process_file env self" "([], None)"] ne' True
    have "process env sched self = finish (Some (snd (last tasks))) recs"
      unfolding process_unfold cols_def [symmetric] kn_def [symmetric] rs_def [symmetric]
      by simp
    then show ?thesis by (auto simp: finish_def)
  next
    case False
    from recs' have "map (\<lambda>row. bind (prepare cols kn (snd row)) (\<lambda>a. process_file env self (fst a) (snd a))) rs = map Inr recs"
      by (simp add: f_def)
    from submit_fake_ok [OF this, of "([], None)"] ne' False
    have "process env sched self = finish (Some (last recs)) recs"
      unfolding process_unfold cols_def [symmetric] kn_def [symmetric] rs_def [symmetric]
      by (simp add: fake_compute_def)
    then show ?thesis by (auto simp: finish_def)
  qed
qed

text \<open>
  Claim C1.  Let the completion order of the pool be any arrangement of the positions of
  the descriptor rows.  Then in both modes a table returned by \<open>process\<close> has as many rows
  as the descriptor, and its row at position \<open>i\<close> is the record of the descriptor row at
  position \<open>i\<close>, laid out along the table's columns.  A table is returned exactly when the
  descriptor has a row and the record of every row can be computed.
\<close>

theorem process_rows_follow_descriptor:
  assumes sched: "mset sched = mset [0..<length (rows (df_log self))]"
  shows "(\<forall>tbl. process env sched self = Inr tbl \<longrightarrow>
            length (rows tbl) = length (rows (df_log self)) \<and>
            (\<forall>i<length (rows (df_log self)). \<exists>r.
               row_record env self (rows (df_log self) ! i) = Inr r \<and>
               rows tbl ! i = ([], map (cell_of r) (map top_level (columns tbl)))))
       \<and> ((\<exists>tbl. process env sched self = Inr tbl) \<longleftrightarrow>
            rows (df_log self) \<noteq> [] \<and>
            (\<forall>row\<in>set (rows (df_log self)). \<exists>r. row_record env self row = Inr r))"
proof -
  from sched have s: "{..<length (rows (df_log self))} \<subseteq> set sched"
    by (rule schedule_covers)
  have order: "length (rows tbl) = length (rows (df_log self)) \<and>
            (\<forall>i<length (rows (df_log self)). \<exists>r.
               row_record env self (rows (df_log self) ! i) = Inr r \<and>
               rows tbl ! i = ([], map (cell_of r) (map top_level (columns tbl))))"
    if ret: "process env sched self = Inr tbl" for tbl
  proof -
    from process_Inr_D [OF s ret] obtain recs cols where
      recs: "map (row_record env self) (rows (df_log self)) = map Inr recs" and
      tbl: "tbl = DataFrame recs cols" by blast
    from recs have len: "length recs = length (rows (df_log self))" by (metis length_map)
    have "\<exists>r. row_record env self (rows (df_log self) ! i) = Inr r \<and>
               rows tbl ! i = ([], map (cell_of r) (map top_level (columns tbl)))"
      if i: "i < length (rows (df_log self))" for i
    proof -
      from i have "map (row_record env self) (rows (df_log self)) ! i
          = row_record env self (rows (df_log self) ! i)" by simp
      moreover from i len have "map Inr recs ! i = (Inr (recs ! i) :: error + cell pydict)" by simp
      ultimately have "row_record env self (rows (df_log self) ! i) = Inr (recs ! i)"
        using recs by simp
      moreover from i len tbl have "rows tbl ! i = ([], map (cell_of (recs ! i)) (map top_level (columns tbl)))"
        by (simp add: DataFrame_def top_level_def comp_def)
      ultimately show ?thesis by (intro exI conjI)
    qed
    then have "\<forall>i<length (rows (df_log self)). \<exists>r.
               row_record env self (rows (df_log self) ! i) = Inr r \<and>
               rows tbl ! i = ([], map (cell_of r) (map top_level (columns tbl)))"
      by (intro allI impI)
    moreover from len tbl have "length (rows tbl) = length (rows (df_log self))"
      by (simp add: DataFrame_def)
    ultimately show ?thesis by (intro conjI)
  qed
  then have order': "\<forall>tbl. process env sched self = Inr tbl \<longrightarrow>
            length (rows tbl) = length (rows (df_log self)) \<and>
            (\<forall>i<length (rows (df_log self)). \<exists>r.
               row_record env self (rows (df_log self) ! i) = Inr r \<and>
               rows tbl ! i = ([], map (cell_of r) (map top_level (columns tbl))))"
    by (intro allI impI)
  have returns: "(\<exists>tbl. process env sched self = Inr tbl) \<longleftrightarrow>
            rows (df_log self) \<noteq> [] \<and>
            (\<forall>row\<in>set (rows (df_log self)). \<exists>r. row_record env self row = Inr r)"
  proof
    assume "\<exists>tbl. process env sched self = Inr tbl"
    then obtain tbl where "process env sched self = Inr tbl" ..
    from process_Inr_D [OF s this] have ne: "rows (df_log self) \<noteq> []"
      and "\<exists>recs. map (row_record env self) (rows (df_log self)) = map Inr recs" by blast+
    then have "\<forall>row\<in>set (rows (df_log self)). \<exists>r. row_record env self row = Inr r"
      by (simp only: all_Inr_iff)
    with ne show "rows (df_log self) \<noteq> [] \<and>
            (\<forall>row\<in>set (rows (df_log self)). \<exists>r. row_record env self row = Inr r)" ..
  next
    assume a: "rows (df_log self) \<noteq> [] \<and>
            (\<forall>row\<in>set (rows (df_log self)). \<exists>r. row_record env self row = Inr r)"
    then have "\<exists>recs. map (row_record env self) (rows (df_log self)) = map Inr recs"
      by (simp only: all_Inr_iff)
    then obtain recs where "map (row_record env self) (rows (df_log self)) = map Inr recs" ..
    from process_ok [OF s _ this] a show "\<exists>tbl. process env sched self = Inr tbl" by blast
  qed
  from order' returns show ?thesis by (rule conjI)
qed

lemma df_log_demo_pipe [simp]: "df_log (demo_pipe jobs) = demo_log"
  by (simp add: demo_pipe_def Pipe_def)

lemma n_jobs_demo_pipe [simp]: "n_jobs (demo_pipe jobs) = jobs"
  by (simp add: demo_pipe_def Pipe_def)

lemma prepare_demo:
  "prepare [ [''pos''], [''pipe''], [''file_name''] ] [''pos'', ''pipe'']
     [Num pos, Str ''P1'', Str f] = Inr (Str f, [(''pos'', Num pos), (''pipe'', Str ''P1'')])"
  by (simp add: prepare_def row_item_def top_level_def)

lemma row_record_demo:
  "row_record demo_env (demo_pipe jobs) ([], [Num pos, Str ''P1'', Str f]) = Inr (demo_record pos)"
  by (simp add: row_record_def demo_log_def top_level_def prepare_demo process_file_demo)

lemma process_demo_parallel:
  "process demo_env [1, 0] (demo_pipe 2) =
     Inr (DataFrame [demo_record 1, demo_record 2] ([''pos'', ''pipe''] @ derived_fields))"
  by (simp add: process_def Let_def demo_log_def top_level_def prepare_demo delayed_apply
        compute_def process_file_demo finish_def)

lemma process_demo_sequential:
  "process demo_env sched (demo_pipe 1) =
     Inr (DataFrame [demo_record 1, demo_record 2] (map fst (demo_record 2) @ derived_fields))"
  by (simp add: process_def Let_def demo_log_def top_level_def prepare_demo fake_delayed_apply
        fake_compute_def process_file_demo finish_def)

theorem process_rows_follow_descriptor_witness:
  "mset [1, 0] = mset [0..<length (rows (df_log (demo_pipe 2)))] \<and>
   process demo_env [1, 0] (demo_pipe 2) =
     Inr (DataFrame [demo_record 1, demo_record 2] ([''pos'', ''pipe''] @ derived_fields)) \<and>
   length (rows (DataFrame [demo_record 1, demo_record 2] ([''pos'', ''pipe''] @ derived_fields)))
     = length (rows (df_log (demo_pipe 2))) \<and>
   (\<exists>r. row_record demo_env (demo_pipe 2) (rows (df_log (demo_pipe 2)) ! 0) = Inr r \<and>
      rows (DataFrame [demo_record 1, demo_record 2] ([''pos'', ''pipe''] @ derived_fields)) ! 0 =
        ([], map (cell_of r) (map top_level
           (columns (DataFrame [demo_record 1, demo_record 2]
              ([''pos'', ''pipe''] @ derived_fields)))))) \<and>
   (\<exists>r. row_record demo_env (demo_pipe 2) (rows (df_log (demo_pipe 2)) ! 1) = Inr r \<and>
      rows (DataFrame [demo_record 1, demo_record 2] ([''pos'', ''pipe''] @ derived_fields)) ! 1 =
        ([], map (cell_of r) (map top_level
           (columns (DataFrame [demo_record 1, demo_record 2]
              ([''pos'', ''pipe''] @ derived_fields))))))"
proof -
  have h: "mset [1, 0] = mset [0..<length (rows (df_log (demo_pipe 2)))]"
    by (simp add: demo_log_def upt_rec_numeral)
  from process_rows_follow_descriptor [OF h, of demo_env]
  have "\<forall>tbl. process demo_env [1, 0] (demo_pipe 2) = Inr tbl \<longrightarrow>
            length (rows tbl) = length (rows (df_log (demo_pipe 2))) \<and>
            (\<forall>i<length (rows (df_log (demo_pipe 2))). \<exists>r.
               row_record demo_env (demo_pipe 2) (rows (df_log (demo_pipe 2)) ! i) = Inr r \<and>
               rows tbl ! i = ([], map (cell_of r) (map top_level (columns tbl))))"
    by (rule conjunct1)
  from this [rule_format, OF process_demo_parallel]
  have len: "length (rows (DataFrame [demo_record 1, demo_record 2]
          ([''pos'', ''pipe''] @ derived_fields))) = length (rows (df_log (demo_pipe 2)))"
    and each: "\<forall>i<length (rows (df_log (demo_pipe 2))). \<exists>r.
      row_record demo_env (demo_pipe 2) (rows (df_log (demo_pipe 2)) ! i) = Inr r \<and>
      rows (DataFrame [demo_record 1, demo_record 2] ([''pos'', ''pipe''] @ derived_fields)) ! i =
        ([], map (cell_of r) (map top_level
           (columns (DataFrame [demo_record 1, demo_record 2]
              ([''pos'', ''pipe''] @ derived_fields)))))"
    by (rule conjunct1, rule conjunct2)
  have "(0::nat) < length (rows (df_log (demo_pipe 2)))"
    "(1::nat) < length (rows (df_log (demo_pipe 2)))"
    by (simp_all add: demo_log_def)
  from each [rule_format, OF this(1)] each [rule_format, OF this(2)] h process_demo_parallel len
  show ?thesis by (intro conjI)
qed

text \<open>
  Claim C10.  On a batch descriptor without rows \<open>process\<close> returns no table, in either
  mode: the loop never assigns \<open>key_dict\<close>, and building the column list fails on the
  unbound variable.
\<close>

theorem process_empty_descriptor:
  "process env sched (self\<lparr>df_log := (df_log self)\<lparr>rows := []\<rparr>\<rparr>) = Inl UnboundLocalError"
  by (simp add: process_def Let_def compute_def finish_def fake_compute_def
        run_schedule_no_tasks)

theorem process_empty_descriptor_witness:
  "process demo_env [] ((demo_pipe 2)\<lparr>df_log := (df_log (demo_pipe 2))\<lparr>rows := []\<rparr>\<rparr>)
     = Inl UnboundLocalError \<and>
   process demo_env [] ((demo_pipe 1)\<lparr>df_log := (df_log (demo_pipe 1))\<lparr>rows := []\<rparr>\<rparr>)
     = Inl UnboundLocalError"
  using process_empty_descriptor [of demo_env "[]" "demo_pipe 2"]
    process_empty_descriptor [of demo_env "[]" "demo_pipe 1"]
  by (intro conjI)

section \<open>Properties of the reshaping\<close>

lemma indexify_denoted:
  "df < next_addr st \<Longrightarrow> denoted (indexify df st) = reshaped (objs st df)"
  by (auto simp: denoted_def indexify_def reshaped_def new_def bind_def set_columns_def
           split: sum.splits prod.splits)

lemma indexify_frame:
  "a < next_addr st \<Longrightarrow> objs (snd (indexify df st)) a = objs st a"
  by (auto simp: indexify_def new_def split: sum.splits prod.splits)

lemma from_arrays_eval:
 "from_arrays arrays = [ [''primary'', ''secondary'', ''amplitude''],
  [''primary'', ''secondary'', ''phase''],
  [''primary'', ''receiver'', ''amplitude''],
  [''primary'', ''receiver'', ''phase''],
  [''sec'', ''receiver'', ''amplitude''],
  [''sec'', ''receiver'', ''phase''],
  [''primary'', ''secondary'', ''db''],
  [''primary'', ''secondary'', ''db''] ]"
  by (simp add: from_arrays_def arrays_def)

lemma order_eval:
  "sort_key (\<lambda>i. from_arrays arrays ! i) [0..<8] = [2, 3, 0, 6, 7, 1, 4, 5]"
  unfolding from_arrays_eval by code_simp

lemma reshaped_flat_table: "reshaped flat_table = Inr hier_table"
  by code_simp

lemma reshaped_hier_table: "reshaped hier_table = Inl KeyError"
  by code_simp

lemma length_from_arrays: "length (from_arrays arrays) = 8"
  by (simp add: from_arrays_eval)

lemma set_index_Inr_iff:
  "set_index keys df = Inr f \<longleftrightarrow>
     (\<exists>locs. those (map (get_loc (columns df)) keys) = Some locs \<and>
        f = \<lparr> index_names = keys, column_names = column_names df,
              columns = drop_at locs (columns df),
              rows = map (\<lambda>row. (map (\<lambda>i. snd row ! i) locs, drop_at locs (snd row))) (rows df) \<rparr>)"
  by (cases "those (map (get_loc (columns df)) keys)") (auto simp: set_index_def)

lemma set_columns_Inr_iff:
  "set_columns labels names f = Inr g \<longleftrightarrow>
     length labels = length (columns f) \<and> g = f\<lparr> columns := labels, column_names := names \<rparr>"
  by (auto simp: set_columns_def)

lemma reshaped_Inr_iff:
  "reshaped df = Inr h \<longleftrightarrow>
     (\<exists>locs. those (map (get_loc (columns df)) [''pipe'', ''pos'']) = Some locs \<and>
        length (drop_at locs (columns df)) = 8 \<and>
        h = sort_index (sort_index_columns (keyed locs df)))"
    (is "?L \<longleftrightarrow> ?R")
proof
  assume ?L
  then obtain f g where
    f: "set_index [''pipe'', ''pos''] df = Inr f" and
    g: "set_columns (from_arrays arrays) [''driver'', ''detector'', ''quantity''] f = Inr g" and
    h: "h = sort_index (sort_index_columns g)"
    unfolding reshaped_def bind_Inr_iff by blast
  from f obtain locs where
    locs: "those (map (get_loc (columns df)) [''pipe'', ''pos'']) = Some locs" and
    f': "f = \<lparr> index_names = [''pipe'', ''pos''], column_names = column_names df,
              columns = drop_at locs (columns df),
              rows = map (\<lambda>row. (map (\<lambda>i. snd row ! i) locs, drop_at locs (snd row))) (rows df) \<rparr>"
    unfolding set_index_Inr_iff by blast
  from g have len: "length (from_arrays arrays) = length (columns f)"
    and g': "g = f\<lparr> columns := from_arrays arrays, column_names := [''driver'', ''detector'', ''quantity''] \<rparr>"
    unfolding set_columns_Inr_iff by blast+
  from g' f' have "g = keyed locs df" by (simp add: keyed_def)
  moreover from len f' have "length (drop_at locs (columns df)) = 8"
    by (simp add: length_from_arrays)
  ultimately show ?R using locs h by blast
next
  assume ?R
  then obtain locs where
    locs: "those (map (get_loc (columns df)) [''pipe'', ''pos'']) = Some locs" and
    len: "length (drop_at locs (columns df)) = 8" and
    h: "h = sort_index (sort_index_columns (keyed locs df))" by blast
  define f where "f = \<lparr> index_names = [''pipe'', ''pos''], column_names = column_names df,
              columns = drop_at locs (columns df),
              rows = map (\<lambda>row. (map (\<lambda>i. snd row ! i) locs, drop_at locs (snd row))) (rows df) \<rparr>"
  from locs have f: "set_index [''pipe'', ''pos''] df = Inr f"
    unfolding set_index_Inr_iff f_def by blast
  from len have "length (from_arrays arrays) = length (columns f)"
    by (simp add: f_def length_from_arrays)
  moreover have "keyed locs df = f\<lparr> columns := from_arrays arrays, column_names := [''driver'', ''detector'', ''quantity''] \<rparr>"
    by (simp add: keyed_def f_def)
  ultimately have "set_columns (from_arrays arrays) [''driver'', ''detector'', ''quantity''] f = Inr (keyed locs df)"
    unfolding set_columns_Inr_iff by blast
  with f h show ?L
    by (simp add: reshaped_def)
qed

lemma reshaped_errors:
  "reshaped df = Inl e \<Longrightarrow> e = KeyError \<or> e = ValueError"
  by (auto simp: reshaped_def bind_def set_index_def set_columns_def
        split: option.splits sum.splits if_splits)

lemma length_column_order: "length column_order = 8"
  by (simp add: column_order_def)

lemma order_eval':
  "sort_key (\<lambda>i. from_arrays arrays ! i) [0..<8] = column_order"
  by (simp only: order_eval column_order_def)

lemma columns_keyed: "columns (keyed locs df) = from_arrays arrays"
  by (simp add: keyed_def)

lemma rows_keyed:
  "rows (keyed locs df) =
     map (\<lambda>row. (map (\<lambda>i. snd row ! i) locs, drop_at locs (snd row))) (rows df)"
  by (simp add: keyed_def)

lemma sort_index_columns_keyed:
  "sort_index_columns (keyed locs df) =
     (keyed locs df)\<lparr> columns := sorted_labels,
        rows := map (\<lambda>row. (fst row, map (\<lambda>i. snd row ! i) column_order))
                  (rows (keyed locs df)) \<rparr>"
  by (simp add: sort_index_columns_def Let_def columns_keyed length_from_arrays order_eval'
        sorted_labels_def)

lemma columns_reshaped: "reshaped df = Inr h \<Longrightarrow> columns h = sorted_labels"
  by (auto simp: reshaped_Inr_iff sort_index_columns_keyed sort_index_def)

lemma get_loc_sorted_labels: "get_loc sorted_labels ''pipe'' = None"
  unfolding sorted_labels_def from_arrays_eval column_order_def by code_simp

lemma reshaped_twice_KeyError:
  assumes "reshaped df = Inr h"
  shows "reshaped h = Inl KeyError"
proof -
  from assms have "columns h = sorted_labels" by (rule columns_reshaped)
  then have "those (map (get_loc (columns h)) [''pipe'', ''pos'']) = None"
    by (simp add: get_loc_sorted_labels)
  then show ?thesis
    by (simp add: reshaped_def set_index_def)
qed

lemma sorted_sorted_labels: "sorted sorted_labels"
  unfolding sorted_labels_def from_arrays_eval column_order_def by code_simp

lemma sort_index_columns_id:
  assumes cols: "sorted (columns f)" and wf: "\<forall>row\<in>set (rows f). length (snd row) = length (columns f)"
  shows "sort_index_columns f = f"
proof -
  have "map (\<lambda>i. columns f ! i) [0..<length (columns f)] = columns f"
    by (rule map_nth)
  with cols have "sorted (map (\<lambda>i. columns f ! i) [0..<length (columns f)])" by simp
  then have order: "sort_key (\<lambda>i. columns f ! i) [0..<length (columns f)] = [0..<length (columns f)]"
    by (rule sort_key_id_if_sorted)
  have "map (\<lambda>row. (fst row, map (\<lambda>i. snd row ! i) [0..<length (columns f)])) (rows f) = map (\<lambda>row. row) (rows f)"
  proof (rule map_cong [OF refl])
    fix row assume "row \<in> set (rows f)"
    with wf have "length (snd row) = length (columns f)" by blast
    then have "map (\<lambda>i. snd row ! i) [0..<length (columns f)] = snd row"
      by (metis map_nth)
    then show "(fst row, map (\<lambda>i. snd row ! i) [0..<length (columns f)]) = row"
      by simp
  qed
  with order show ?thesis
    by (simp add: sort_index_columns_def Let_def map_nth)
qed

lemma sort_index_id: "sorted (map fst (rows f)) \<Longrightarrow> sort_index f = f"
  by (simp add: sort_index_def sort_key_id_if_sorted)

lemma resort_reshaped:
  assumes "reshaped df = Inr h"
  shows "sort_index (sort_index_columns h) = h"
proof -
  from assms obtain locs where
    h: "h = sort_index (sort_index_columns (keyed locs df))"
    by (auto simp: reshaped_Inr_iff)
  have cols: "columns h = sorted_labels" using assms by (rule columns_reshaped)
  have wf: "\<forall>row\<in>set (rows h). length (snd row) = length (columns h)"
    by (auto simp: h sort_index_columns_keyed sort_index_def sorted_labels_def)
  have srt: "sorted (map fst (rows h))"
    by (simp add: h sort_index_def)
  from cols sorted_sorted_labels have "sorted (columns h)" by simp
  from sort_index_columns_id [OF this wf] sort_index_id [OF srt] show ?thesis by simp
qed

lemma insort_key_map:
  "insort_key f (g x) (map g xs) = map g (insort_key (\<lambda>x. f (g x)) x xs)"
  by (induction xs) simp_all

lemma sort_key_map:
  "sort_key f (map g xs) = map g (sort_key (\<lambda>x. f (g x)) xs)"
  by (induction xs) (simp_all add: insort_key_map)

lemma drop_at_first_two:
  assumes "set locs = {0, 1}"
  shows "drop_at locs (a # b # xs) = xs"
proof -
  have "filter (\<lambda>p. fst p \<notin> set locs) (enumerate 2 xs) = enumerate 2 xs"
    using assms by (auto simp: filter_id_conv in_set_enumerate_eq)
  moreover have "enumerate 0 (a # b # xs) = (0, a) # (1, b) # enumerate 2 xs"
    by (simp add: numeral_2_eq_2)
  ultimately show ?thesis
    using assms by (simp add: drop_at_def)
qed

lemma locs_pipe_pos:
  assumes "cols = map (\<lambda>c. [c]) (k1 # k2 # ks)"
    and "(k1 = ''pipe'' \<and> k2 = ''pos'') \<or> (k1 = ''pos'' \<and> k2 = ''pipe'')"
  shows "those (map (get_loc cols) [''pipe'', ''pos'']) =
           Some (if k1 = ''pipe'' then [0, 1] else [1, 0])"
  using assms by (auto simp: top_level_def)

lemma lt7_cases:
  "(k::nat) < 7 \<Longrightarrow> k = 0 \<or> k = 1 \<or> k = 2 \<or> k = 3 \<or> k = 4 \<or> k = 5 \<or> k = 6"
  by arith

lemma rows_reshaped:
  assumes "reshaped df = Inr h"
    and "those (map (get_loc (columns df)) [''pipe'', ''pos'']) = Some locs"
  shows "rows h = sort_key fst
           (map (\<lambda>row. (map (\<lambda>i. snd row ! i) locs,
                        map (\<lambda>i. drop_at locs (snd row) ! i) column_order))
              (rows df))"
proof -
  from assms have "h = sort_index (sort_index_columns (keyed locs df))"
    by (auto simp: reshaped_Inr_iff)
  then show ?thesis
    by (simp add: sort_index_columns_keyed sort_index_def rows_keyed comp_def)
qed

lemma reshaped_column:
  assumes r: "reshaped df = Inr h"
    and locs: "those (map (get_loc (columns df)) [''pipe'', ''pos'']) = Some locs"
    and m: "m < 8"
  shows "map (\<lambda>row. snd row ! m) (rows h) =
         map (\<lambda>row. drop_at locs (snd row) ! (column_order ! m))
           (sort_key (\<lambda>row. map (\<lambda>i. snd row ! i) locs) (rows df))"
  unfolding rows_reshaped [OF r locs] sort_key_map
  using m by (simp add: comp_def length_column_order)

lemma reshaped_label:
  assumes r: "reshaped df = Inr h" and m: "m < 8"
  shows "columns h ! m = from_arrays arrays ! (column_order ! m)"
  using columns_reshaped [OF r] m by (simp add: sorted_labels_def length_column_order)

lemma column_place:
  assumes "k < 7"
  shows "column_place ! k < 8 \<and> column_order ! (column_place ! k) = k"
  using lt7_cases [OF assms] by (auto simp: column_place_def column_order_def)

lemma indexify_result_allocated:
  "indexify df st = (Inr a, st') \<Longrightarrow> a < next_addr st'"
  by (auto simp: indexify_def new_def split: sum.splits prod.splits)

lemma denoted_Inr: "res = (Inr a, st') \<Longrightarrow> denoted res = Inr (objs st' a)"
  by (simp add: denoted_def)

lemma denoted_Inl_iff: "denoted res = Inl e \<longleftrightarrow> fst res = Inl e"
  by (cases "fst res") (simp_all add: denoted_def)

text \<open>
  Claim C7, as the code has it.  The reshape never looks at the uniqueness of the keys.
  Whenever the flat table has the columns \<open>pipe\<close> and \<open>pos\<close> and eight further columns,
  the reshape returns a hierarchical table; its index holds the (pipe, position) key of
  every row of the flat table, as often as the flat table has it, in ascending order, and
  the flat table itself is left as it was.
\<close>

theorem indexify_keeps_duplicate_keys:
  assumes "df < next_addr st"
    and "those (map (get_loc (columns (objs st df))) [''pipe'', ''pos'']) = Some locs"
    and "length (drop_at locs (columns (objs st df))) = 8"
  shows "\<exists>h. denoted (indexify df st) = Inr h \<and>
           mset (map fst (rows h)) =
             mset (map (\<lambda>row. map (\<lambda>i. snd row ! i) locs) (rows (objs st df))) \<and>
           sorted (map fst (rows h)) \<and>
           objs (snd (indexify df st)) df = objs st df"
proof -
  define h where "h = sort_index (sort_index_columns (keyed locs (objs st df)))"
  from assms(2,3) have r: "reshaped (objs st df) = Inr h"
    unfolding reshaped_Inr_iff h_def by blast
  with assms(1) have d: "denoted (indexify df st) = Inr h"
    by (simp add: indexify_denoted)
  have "mset (map fst (rows h)) =
      mset (map fst (map (\<lambda>row. (map (\<lambda>i. snd row ! i) locs,
                        map (\<lambda>i. drop_at locs (snd row) ! i) column_order))
              (rows (objs st df))))"
    by (simp only: rows_reshaped [OF r assms(2)] mset_map mset_sort)
  also have "map fst (map (\<lambda>row. (map (\<lambda>i. snd row ! i) locs,
                        map (\<lambda>i. drop_at locs (snd row) ! i) column_order))
              (rows (objs st df))) =
      map (\<lambda>row. map (\<lambda>i. snd row ! i) locs) (rows (objs st df))"
    by (simp add: comp_def)
  finally have "mset (map fst (rows h)) =
      mset (map (\<lambda>row. map (\<lambda>i. snd row ! i) locs) (rows (objs st df)))" .
  moreover have "sorted (map fst (rows h))"
    by (simp add: h_def sort_index_def)
  moreover from assms(1) have "objs (snd (indexify df st)) df = objs st df"
    by (rule indexify_frame)
  ultimately show ?thesis using d by blast
qed

theorem indexify_keeps_duplicate_keys_witness:
  "(0::nat) < next_addr flat_store \<and>
   those (map (get_loc (columns (objs flat_store 0))) [''pipe'', ''pos'']) = Some [1, 0] \<and>
   length (drop_at [1, 0] (columns (objs flat_store 0))) = 8 \<and>
   (\<exists>h. denoted (indexify 0 flat_store) = Inr h \<and>
      mset (map fst (rows h)) =
        mset (map (\<lambda>row. map (\<lambda>i. snd row ! i) [1, 0]) (rows (objs flat_store 0))) \<and>
      sorted (map fst (rows h)) \<and>
      objs (snd (indexify 0 flat_store)) 0 = objs flat_store 0)"
proof -
  have a: "(0::nat) < next_addr flat_store" by (simp add: flat_store_def)
  have b: "those (map (get_loc (columns (objs flat_store 0))) [''pipe'', ''pos'']) = Some [1, 0]"
    by (simp add: flat_store_def flat_table_def flat_columns_def derived_fields_def top_level_def)
  have c: "length (drop_at [1, 0] (columns (objs flat_store 0))) = 8"
    by (simp add: flat_store_def flat_table_def flat_columns_def derived_fields_def drop_at_def)
  from a b c indexify_keeps_duplicate_keys [OF a b c] show ?thesis by blast
qed

text \<open>
  The claim as the spec states it fails: the second and the third row of \<open>flat_table\<close>
  share position and pipe, and the reshape returns a table.
\<close>

theorem indexify_duplicate_key_counterexample:
  "snd (rows flat_table ! 1) ! 0 = snd (rows flat_table ! 2) ! 0 \<and>
   snd (rows flat_table ! 1) ! 1 = snd (rows flat_table ! 2) ! 1 \<and>
   columns flat_table ! 0 = [''pos''] \<and> columns flat_table ! 1 = [''pipe''] \<and>
   denoted (indexify 0 flat_store) = Inr hier_table"
proof -
  have "denoted (indexify 0 flat_store) = reshaped (objs flat_store 0)"
    by (rule indexify_denoted) (simp add: flat_store_def)
  then have "denoted (indexify 0 flat_store) = Inr hier_table"
    by (simp add: flat_store_def reshaped_flat_table)
  then show ?thesis
    by (simp add: flat_table_def flat_columns_def)
qed

text \<open>
  Claim C8, as the code has it.  The two sorts of the reshape are idempotent: sorting the
  columns and the rows of a reshaped table again gives the same table.  The reshape as a
  whole cannot be applied to its own result: \<open>pipe\<close> and \<open>pos\<close> are index levels there and
  no longer columns, so \<open>set_index\<close> raises \<open>KeyError\<close>.
\<close>

theorem indexify_again_fails:
  assumes "df < next_addr st" and "indexify df st = (Inr a, st')"
  shows "fst (indexify a st') = Inl KeyError \<and>
         sort_index (sort_index_columns (objs st' a)) = objs st' a"
proof -
  from assms(2) have "denoted (indexify df st) = Inr (objs st' a)"
    by (simp add: denoted_def)
  with assms(1) have r: "reshaped (objs st df) = Inr (objs st' a)"
    by (simp add: indexify_denoted)
  from assms(2) have "a < next_addr st'" by (rule indexify_result_allocated)
  then have "denoted (indexify a st') = reshaped (objs st' a)" by (rule indexify_denoted)
  with reshaped_twice_KeyError [OF r] have "fst (indexify a st') = Inl KeyError"
    by (simp add: denoted_Inl_iff)
  with resort_reshaped [OF r] show ?thesis by simp
qed

lemma indexify_flat_store:
  "fst (indexify 0 flat_store) = Inr 3 \<and> objs (snd (indexify 0 flat_store)) 3 = hier_table"
proof -
  have "denoted (indexify 0 flat_store) = reshaped (objs flat_store 0)"
    by (rule indexify_denoted) (simp add: flat_store_def)
  then have d: "denoted (indexify 0 flat_store) = Inr hier_table"
    by (simp add: flat_store_def reshaped_flat_table)
  then obtain f1 f2 where
    "set_index [''pipe'', ''pos''] flat_table = Inr f1"
    "set_columns (from_arrays arrays) [''driver'', ''detector'', ''quantity''] f1 = Inr f2"
    using reshaped_flat_table
    unfolding reshaped_def bind_Inr_iff by blast
  then have "fst (indexify 0 flat_store) = Inr 3"
    by (simp add: indexify_def new_def flat_store_def)
  with d show ?thesis by (auto simp: denoted_def)
qed

theorem indexify_again_fails_witness:
  "(0::nat) < next_addr flat_store \<and>
   indexify 0 flat_store = (Inr 3, snd (indexify 0 flat_store)) \<and>
   fst (indexify 3 (snd (indexify 0 flat_store))) = Inl KeyError \<and>
   sort_index (sort_index_columns (objs (snd (indexify 0 flat_store)) 3))
     = objs (snd (indexify 0 flat_store)) 3"
proof -
  have a: "(0::nat) < next_addr flat_store" by (simp add: flat_store_def)
  have b: "indexify 0 flat_store = (Inr 3, snd (indexify 0 flat_store))"
    using indexify_flat_store by (simp add: prod_eq_iff)
  from a b indexify_again_fails [OF a b] show ?thesis by blast
qed

text \<open>
  The claim as the spec states it fails: reshaping \<open>flat_table\<close> gives a table, and
  reshaping that table gives an error.
\<close>

theorem indexify_idempotent_counterexample:
  "fst (indexify 0 flat_store) = Inr 3 \<and>
   objs (snd (indexify 0 flat_store)) 3 = hier_table \<and>
   fst (indexify 3 (snd (indexify 0 flat_store))) = Inl KeyError"
proof -
  from indexify_flat_store
  have "indexify 0 flat_store = (Inr 3, snd (indexify 0 flat_store))"
    by (simp add: prod_eq_iff)
  then have "3 < next_addr (snd (indexify 0 flat_store))"
    by (rule indexify_result_allocated)
  then have "denoted (indexify 3 (snd (indexify 0 flat_store)))
      = reshaped (objs (snd (indexify 0 flat_store)) 3)"
    by (rule indexify_denoted)
  with indexify_flat_store have "denoted (indexify 3 (snd (indexify 0 flat_store))) = Inl KeyError"
    by (simp add: reshaped_hier_table)
  with indexify_flat_store show ?thesis by (simp add: denoted_Inl_iff)
qed

lemma drop_at_row:
  assumes "set locs = {0, 1}" and "length cells = 10"
  shows "drop_at locs cells ! k = cells ! (k + 2)"
proof -
  from assms(2) obtain a b xs where "cells = a # b # xs"
    by (cases cells; cases "tl cells") auto
  with drop_at_first_two [OF assms(1), of a b xs] show ?thesis by simp
qed

lemma label_table:
  "take 7 (zip derived_fields (from_arrays arrays)) =
     [(''prim_sec_amp'', [''primary'', ''secondary'', ''amplitude'']),
      (''prim_sec_phi'', [''primary'', ''secondary'', ''phase'']),
      (''prim_rec_amp'', [''primary'', ''receiver'', ''amplitude'']),
      (''prim_rec_phi'', [''primary'', ''receiver'', ''phase'']),
      (''sec_rec_amp'', [''sec'', ''receiver'', ''amplitude'']),
      (''sec_rec_phi'', [''sec'', ''receiver'', ''phase'']),
      (''sec_harm_db'', [''primary'', ''secondary'', ''db''])]"
  by (simp add: derived_fields_def from_arrays_eval)

text \<open>
  Claim C9, as the code has it.  The reshape relabels the derived columns by position with
  the labels of the code's arrays.  For a flat table whose columns are \<open>pipe\<close> and \<open>pos\<close>
  (in either order) followed by the eight derived fields, each of the first seven derived
  columns is found in the result under its label, row by row with the values it had in the
  flat table: \<open>prim_sec_amp\<close> and \<open>prim_sec_phi\<close> under (primary, secondary, amplitude) and
  (primary, secondary, phase), \<open>prim_rec_amp\<close> and \<open>prim_rec_phi\<close> under
  (primary, receiver, amplitude) and (primary, receiver, phase), \<open>sec_rec_amp\<close> and
  \<open>sec_rec_phi\<close> under (sec, receiver, amplitude) and (sec, receiver, phase), and
  \<open>sec_harm_db\<close> under (primary, secondary, db).  The driver label of the two
  receiver-over-secondary columns is \<open>sec\<close>.
\<close>

theorem indexify_labels:
  assumes "df < next_addr st"
    and "columns (objs st df) = map (\<lambda>c. [c]) (k1 # k2 # derived_fields)"
    and "(k1 = ''pipe'' \<and> k2 = ''pos'') \<or> (k1 = ''pos'' \<and> k2 = ''pipe'')"
    and "\<forall>row\<in>set (rows (objs st df)). length (snd row) = 10"
  shows "\<exists>h. denoted (indexify df st) = Inr h \<and>
      (\<forall>k<7. \<exists>m<8. columns h ! m = from_arrays arrays ! k \<and>
          map (\<lambda>row. snd row ! m) (rows h) =
            map (\<lambda>row. snd row ! (k + 2))
              (sort_key (\<lambda>row. map (\<lambda>i. snd row ! i) (if k1 = ''pipe'' then [0, 1] else [1, 0]))
                 (rows (objs st df)))) \<and>
      take 7 (zip derived_fields (from_arrays arrays)) =
        [(''prim_sec_amp'', [''primary'', ''secondary'', ''amplitude'']),
         (''prim_sec_phi'', [''primary'', ''secondary'', ''phase'']),
         (''prim_rec_amp'', [''primary'', ''receiver'', ''amplitude'']),
         (''prim_rec_phi'', [''primary'', ''receiver'', ''phase'']),
         (''sec_rec_amp'', [''sec'', ''receiver'', ''amplitude'']),
         (''sec_rec_phi'', [''sec'', ''receiver'', ''phase'']),
         (''sec_harm_db'', [''primary'', ''secondary'', ''db''])]"
proof -
  define locs :: "nat list" where "locs = (if k1 = ''pipe'' then [0, 1] else [1, 0])"
  define f where "f = objs st df"
  have set_locs: "set locs = {0, 1}" by (auto simp: locs_def)
  from locs_pipe_pos [OF assms(2,3)]
  have locs: "those (map (get_loc (columns f)) [''pipe'', ''pos'']) = Some locs"
    by (simp add: locs_def f_def)
  have "drop_at locs (columns f) = map (\<lambda>c. [c]) derived_fields"
    using drop_at_first_two [OF set_locs] assms(2) by (simp add: f_def)
  then have len: "length (drop_at locs (columns f)) = 8"
    by (simp add: derived_fields_def)
  define h where "h = sort_index (sort_index_columns (keyed locs f))"
  from locs len have r: "reshaped f = Inr h"
    unfolding reshaped_Inr_iff h_def by blast
  with assms(1) have d: "denoted (indexify df st) = Inr h"
    by (simp add: indexify_denoted f_def)
  have col: "\<exists>m<8. columns h ! m = from_arrays arrays ! k \<and>
          map (\<lambda>row. snd row ! m) (rows h) =
            map (\<lambda>row. snd row ! (k + 2))
              (sort_key (\<lambda>row. map (\<lambda>i. snd row ! i) locs) (rows f))"
    if k: "k < 7" for k
  proof -
    from column_place [OF k] have m: "column_place ! k < 8"
      and place: "column_order ! (column_place ! k) = k" by simp_all
    from reshaped_label [OF r m] place
    have lab: "columns h ! (column_place ! k) = from_arrays arrays ! k" by simp
    have "map (\<lambda>row. drop_at locs (snd row) ! k)
            (sort_key (\<lambda>row. map (\<lambda>i. snd row ! i) locs) (rows f)) =
          map (\<lambda>row. snd row ! (k + 2))
            (sort_key (\<lambda>row. map (\<lambda>i. snd row ! i) locs) (rows f))"
    proof (rule map_cong [OF refl])
      fix row assume "row \<in> set (sort_key (\<lambda>row. map (\<lambda>i. snd row ! i) locs) (rows f))"
      then have "row \<in> set (rows f)" by simp
      with assms(4) have "length (snd row) = 10" by (simp add: f_def)
      from drop_at_row [OF set_locs this]
      show "drop_at locs (snd row) ! k = snd row ! (k + 2)" .
    qed
    with reshaped_column [OF r locs m] place
    have "map (\<lambda>row. snd row ! (column_place ! k)) (rows h) =
          map (\<lambda>row. snd row ! (k + 2))
            (sort_key (\<lambda>row. map (\<lambda>i. snd row ! i) locs) (rows f))"
      by simp
    with m lab show ?thesis by blast
  qed
  then have "\<forall>k<7. \<exists>m<8. columns h ! m = from_arrays arrays ! k \<and>
          map (\<lambda>row. snd row ! m) (rows h) =
            map (\<lambda>row. snd row ! (k + 2))
              (sort_key (\<lambda>row. map (\<lambda>i. snd row ! i) locs) (rows f))"
    by (intro allI impI)
  with d label_table show ?thesis
    unfolding locs_def f_def by (intro exI conjI)
qed

theorem indexify_labels_witness:
  "(0::nat) < next_addr flat_store \<and>
   columns (objs flat_store 0) = map (\<lambda>c. [c]) (''pos'' # ''pipe'' # derived_fields) \<and>
   list_all (\<lambda>row. length (snd row) = 10) (rows (objs flat_store 0)) \<and>
   (\<exists>h. denoted (indexify 0 flat_store) = Inr h \<and>
      (\<forall>k<7. \<exists>m<8. columns h ! m = from_arrays arrays ! k \<and>
          map (\<lambda>row. snd row ! m) (rows h) =
            map (\<lambda>row. snd row ! (k + 2))
              (sort_key (\<lambda>row. map (\<lambda>i. snd row ! i) [1, 0]) (rows (objs flat_store 0)))))"
proof -
  have a: "(0::nat) < next_addr flat_store" by (simp add: flat_store_def)
  have b: "columns (objs flat_store 0) = map (\<lambda>c. [c]) (''pos'' # ''pipe'' # derived_fields)"
    by (simp add: flat_store_def flat_table_def flat_columns_def)
  have c: "(''pos'' = ''pipe'' \<and> ''pipe'' = ''pos'') \<or> (''pos'' = ''pos'' \<and> ''pipe'' = ''pipe'')"
    by simp
  have d: "\<forall>row\<in>set (rows (objs flat_store 0)). length (snd row) = 10"
    by (simp add: flat_store_def flat_table_def)
  then have d': "list_all (\<lambda>row. length (snd row) = 10) (rows (objs flat_store 0))"
    by (simp add: list_all_iff)
  from indexify_labels [OF a b c d] obtain h where
    "denoted (indexify 0 flat_store) = Inr h"
    "\<forall>k<7. \<exists>m<8. columns h ! m = from_arrays arrays ! k \<and>
          map (\<lambda>row. snd row ! m) (rows h) =
            map (\<lambda>row. snd row ! (k + 2))
              (sort_key (\<lambda>row. map (\<lambda>i. snd row ! i) [1, 0]) (rows (objs flat_store 0)))"
    by auto
  with a b d' show ?thesis by blast
qed

text \<open>
  The claim as the spec states it fails: the values of \<open>sec_rec_amp\<close> are found under the
  driver label \<open>sec\<close>, and no column of the result is labelled
  (secondary, receiver, amplitude).
\<close>

theorem indexify_driver_label_counterexample:
  "denoted (indexify 0 flat_store) = Inr hier_table \<and>
   columns flat_table ! 6 = [''sec_rec_amp''] \<and>
   snd (rows flat_table ! 0) ! 6 = 15 \<and> snd (rows flat_table ! 1) ! 6 = 25 \<and>
   snd (rows flat_table ! 2) ! 6 = 35 \<and>
   columns hier_table ! 6 = [''sec'', ''receiver'', ''amplitude''] \<and>
   snd (rows hier_table ! 0) ! 6 = 25 \<and> snd (rows hier_table ! 1) ! 6 = 35 \<and>
   snd (rows hier_table ! 2) ! 6 = 15 \<and>
   [''secondary'', ''receiver'', ''amplitude''] \<notin> set (columns hier_table)"
proof -
  have "denoted (indexify 0 flat_store) = reshaped (objs flat_store 0)"
    by (rule indexify_denoted) (simp add: flat_store_def)
  then have "denoted (indexify 0 flat_store) = Inr hier_table"
    by (simp add: flat_store_def reshaped_flat_table)
  then show ?thesis
    by (simp add: flat_table_def hier_table_def flat_columns_def derived_fields_def)
qed

end
